theory Spec2Isabelle
  imports Main "HOL-Library.Word" "HOL-Library.Char_ord" "HOL-Library.List_Lexorder"
begin

section \<open>Bytes, strings and errors\<close>

text \<open>
  A Go \<open>[]byte\<close> is a list of 8-bit words and a Go \<open>string\<close> is a list of 8-bit
  characters. \<open>common.Address\<close> is a \<open>[20]byte\<close> array and the salt a \<open>[32]byte\<close>
  array; both are words of that width, so that the all-zero test of the source is
  the comparison with \<open>0\<close>. \<open>sort.Strings\<close> compares byte by byte, which is the
  lexicographic order on character lists.
\<close>

type_synonym byte = "8 word"
type_synonym bytes = "byte list"
type_synonym Address = "160 word"

text \<open>\<open>strings.HasPrefix\<close>, \<open>strings.HasSuffix\<close>, \<open>strings.TrimSuffix\<close>, \<open>strings.Join\<close>.\<close>

definition hasPrefix :: "string \<Rightarrow> string \<Rightarrow> bool" where
  "hasPrefix s prefix = (length prefix \<le> length s \<and> take (length prefix) s = prefix)"

definition hasSuffix :: "string \<Rightarrow> string \<Rightarrow> bool" where
  "hasSuffix s suffix =
     (length suffix \<le> length s \<and> drop (length s - length suffix) s = suffix)"

definition trimSuffix :: "string \<Rightarrow> string \<Rightarrow> string" where
  "trimSuffix s suffix =
     (if hasSuffix s suffix then take (length s - length suffix) s else s)"

fun join :: "string list \<Rightarrow> string \<Rightarrow> string" where
  "join [] sep = []"
| "join [x] sep = x"
| "join (x # y # rest) sep = x @ sep @ join (y # rest) sep"

text \<open>
  Every \<open>fmt.Errorf\<close> and \<open>errors.New\<close> of the source is a constructor; an error that
  wraps another one (\<open>%w\<close>) carries it. Failures of the external libraries are
  wrapped by the source the same way; the library's own message is not modelled.
\<close>

datatype error =
    CyclicReference string
  | TypeNotFound string
  | FieldNotFound string
  | EncodeFieldFailed string error
  | EncodeArrayElementFailed nat error
  | ExpectedSlice string
  | InvalidStructValue
  | UnsupportedType string
  | InvalidBytesType string
  | InvalidBytesSize string
  | BytesTooLong string
  | NegativeForUnsigned string
  | InvalidAddress string
  | InvalidAddressType
  | InvalidBytesValueType
  | InvalidHexString
  | InvalidHexNumber string
  | InvalidDecimalNumber string
  | InvalidIntegerType
  | HashDomainFailed error
  | HashMessageFailed error
  | HashTypedDataFailed
  | HashTypedDataFastFailed error
  | SignFailed
  | InvalidSignatureHex
  | SignatureMustBe65Bytes
  | RecoverPublicKeyFailed
  | InvalidPrivateKey
  | IndexOutOfRange

section \<open>Schema and domain\<close>

record Domain =
  Name :: string
  Version :: string
  ChainID :: "int option"
  VerifyingContract :: Address
  Salt :: "256 word"

record Type =
  Name :: string
  Type :: string

text \<open>The signature as the library returns it: hexadecimal strings and the byte \<open>v\<close>.\<close>

record Signature =
  R :: string
  S :: string
  V :: byte
  Hash :: string
  Bytes :: string

text \<open>
  The schema \<open>map[string][]Type\<close>. A Go map has one entry per key and is iterated in
  an unspecified order; the association list fixes one order, \<open>map_of\<close> is the lookup.
\<close>

type_synonym Types = "(string \<times> Type list) list"

definition buildDomainTypesStatic :: "Domain \<Rightarrow> Type list" where
  "buildDomainTypesStatic domain =
     (let types = [\<lparr>Type.Name = ''name'', Type = ''string''\<rparr>,
                   \<lparr>Type.Name = ''version'', Type = ''string''\<rparr>];
          types = (if ChainID domain \<noteq> None
                   then types @ [\<lparr>Type.Name = ''chainId'', Type = ''uint256''\<rparr>] else types);
          types = (if VerifyingContract domain \<noteq> 0
                   then types @ [\<lparr>Type.Name = ''verifyingContract'', Type = ''address''\<rparr>]
                   else types);
          types = (if Salt domain \<noteq> 0
                   then types @ [\<lparr>Type.Name = ''salt'', Type = ''bytes32''\<rparr>] else types)
      in types)"

subsection \<open>Cycle detection\<close>

text \<open>
  \<open>visited\<close> and \<open>inPath\<close> are Go \<open>map[string]bool\<close>: a missing key reads as false.
  \<open>checkCycle\<close> returns the error (if any) and the two maps as it leaves them;
  \<open>checkCycleFields\<close> is its loop over the fields of a type.
\<close>

type_synonym marks = "string \<Rightarrow> bool"

function checkCycle :: "string \<Rightarrow> Types \<Rightarrow> marks \<times> marks \<Rightarrow> error option \<times> marks \<times> marks"
  and checkCycleFields :: "Type list \<Rightarrow> Types \<Rightarrow> marks \<times> marks \<Rightarrow> error option \<times> marks \<times> marks"
where
  "checkCycle typeName types (visited, inPath) =
     (if inPath typeName then (Some (CyclicReference typeName), visited, inPath)
      else if visited typeName then (None, visited, inPath)
      else
        (case map_of types typeName of
           None \<Rightarrow> (None, visited(typeName := True),
                    (inPath(typeName := True))(typeName := False))
         | Some flds \<Rightarrow>
             (case checkCycleFields flds types
                     (visited(typeName := True), inPath(typeName := True)) of
                (Some err, st) \<Rightarrow> (Some err, st)
              | (None, visited', inPath') \<Rightarrow> (None, visited', inPath'(typeName := False)))))"
| "checkCycleFields [] types st = (None, st)"
| "checkCycleFields (field # rest) types st =
     (if map_of types (trimSuffix (Type field) ''[]'') \<noteq> None then
        (case checkCycle (trimSuffix (Type field) ''[]'') types st of
           (Some err, st') \<Rightarrow> (Some err, st')
         | (None, st') \<Rightarrow> checkCycleFields rest types st')
      else checkCycleFields rest types st)"
  by pat_completeness auto

text \<open>The search terminates because every call that descends marks a new key as visited.\<close>

definition unvisited :: "Types \<Rightarrow> marks \<Rightarrow> nat" where
  "unvisited types visited = length (filter (\<lambda>k. \<not> visited k) (remdups (map fst types)))"

lemma unvisited_mono:
  "(\<And>k. v k \<Longrightarrow> v' k) \<Longrightarrow> unvisited types v' \<le> unvisited types v"
proof -
  assume h: "\<And>k. v k \<Longrightarrow> v' k"
  have "length (filter (\<lambda>k. \<not> v' k) xs) \<le> length (filter (\<lambda>k. \<not> v k) xs)" for xs
    using h by (induction xs) (auto simp: le_SucI)
  then show ?thesis by (simp add: unvisited_def)
qed

lemma unvisited_mark:
  assumes "map_of types typeName = Some flds" and "\<not> visited typeName"
  shows "unvisited types (visited(typeName := True)) < unvisited types visited"
proof -
  let ?keys = "remdups (map fst types)"
  have "typeName \<in> set ?keys"
    using assms(1) by (auto dest: map_of_SomeD intro: rev_image_eqI)
  then have "typeName \<in> set (filter (\<lambda>k. \<not> visited k) ?keys)"
    using assms(2) by simp
  then have "length (filter (\<lambda>k. k \<noteq> typeName) (filter (\<lambda>k. \<not> visited k) ?keys))
             < length (filter (\<lambda>k. \<not> visited k) ?keys)"
    by (intro length_filter_less) auto
  moreover have "filter (\<lambda>k. \<not> (visited(typeName := True)) k) ?keys
      = filter (\<lambda>k. k \<noteq> typeName) (filter (\<lambda>k. \<not> visited k) ?keys)"
    by (auto intro!: filter_cong)
  ultimately show ?thesis by (simp add: unvisited_def)
qed

lemma checkCycle_visited_mono:
  "checkCycle_checkCycleFields_dom (Inl (typeName, types, st)) \<Longrightarrow>
     fst st k \<Longrightarrow> fst (snd (checkCycle typeName types st)) k"
  "checkCycle_checkCycleFields_dom (Inr (flds, types, st)) \<Longrightarrow>
     fst st k \<Longrightarrow> fst (snd (checkCycleFields flds types st)) k"
proof (induction typeName types st and flds types st rule: checkCycle_checkCycleFields.pinduct)
  case (1 typeName types visited inPath)
  then show ?case
    by (auto simp: checkCycle.psimps split: option.splits prod.splits)
next
  case (2 types st)
  then show ?case by (simp add: checkCycleFields.psimps)
next
  case (3 field rest types st)
  then show ?case
    by (auto simp: checkCycleFields.psimps split: option.splits prod.splits)
qed

termination checkCycle
proof (relation "inv_image (less_than <*lex*> less_than)
         (\<lambda>x. case x of
             Inl (typeName, types, st) \<Rightarrow> (unvisited types (fst st), 0)
           | Inr (flds, types, st) \<Rightarrow> (unvisited types (fst st), Suc (length flds)))",
       goal_cases)
  case 1
  then show ?case by (intro wf_inv_image wf_lex_prod wf_less_than)
next
  case (2 typeName types visited inPath flds)
  then show ?case by (simp add: unvisited_mark)
next
  case (3 field rest types st)
  then show ?case by simp
next
  case (4 field rest types st x y)
  have "snd (checkCycle (trimSuffix (Type field) ''[]'') types st) = y"
    using 4(2) by (metis snd_conv)
  then have "unvisited types (fst y) \<le> unvisited types (fst st)"
    using 4(4) checkCycle_visited_mono(1)[of "trimSuffix (Type field) ''[]''" types st]
    by (intro unvisited_mono) auto
  then show ?case by auto
next
  case (5 field rest types st)
  then show ?case by simp
qed

text \<open>The loop \<open>for typeName := range types\<close> of \<open>validateNoCycles\<close>, sharing both maps.\<close>

fun validateNoCyclesLoop :: "string list \<Rightarrow> Types \<Rightarrow> marks \<times> marks \<Rightarrow> error option" where
  "validateNoCyclesLoop [] types st = None"
| "validateNoCyclesLoop (typeName # rest) types st =
     (case checkCycle typeName types st of
        (Some err, st') \<Rightarrow> Some err
      | (None, st') \<Rightarrow> validateNoCyclesLoop rest types st')"

definition validateNoCycles :: "Types \<Rightarrow> error option" where
  "validateNoCycles types =
     validateNoCyclesLoop (map fst types) types (\<lambda>k. False, \<lambda>k. False)"

section \<open>Dynamic values and conversions\<close>

text \<open>
  A message value is a Go \<open>interface{}\<close>. The model has the dynamic types the encoder
  tells apart: \<open>nil\<close>, \<open>string\<close>, \<open>[]byte\<close>, \<open>bool\<close>, \<open>*big.Int\<close>, \<open>int64\<close>,
  \<open>uint64\<close>, \<open>uint8\<close> (what \<open>reflect\<close> yields for an element of a \<open>[]byte\<close>),
  \<open>common.Address\<close>, any other slice (\<open>[]interface{}\<close>, \<open>[]string\<close>, ...) by its
  elements, and \<open>map[string]interface{}\<close> or \<open>Message\<close> by its entries.
\<close>

datatype Value =
    VNil
  | VString string
  | VBytes bytes
  | VBool bool
  | VBigInt int
  | VInt64 "64 word"
  | VUint64 "64 word"
  | VUint8 byte
  | VAddress Address
  | VSlice "Value list"
  | VMap "(string \<times> Value) list"

type_synonym Message = "(string \<times> Value) list"

text \<open>
  The library functions that are taken as given: \<open>crypto.Keccak256\<close>, the checksummed
  \<open>Hex\<close> form of an address, and \<open>fmt.Sprintf("%v", v)\<close>.
\<close>

record Lib =
  Keccak256 :: "bytes \<Rightarrow> bytes"
  AddressHex :: "Address \<Rightarrow> string"
  Sprint :: "Value \<Rightarrow> string"

definition bytesOfString :: "string \<Rightarrow> bytes" where
  "bytesOfString s = map (\<lambda>c. of_nat (of_char c)) s"

text \<open>
  \<open>[]byte(s)\<close> of a string, and a number written big-endian on a given count of bytes:
  the 20 bytes of an address, the 32 bytes of a salt, and \<open>math.U256Bytes\<close>, which
  first reduces its argument modulo \<open>2^256\<close> (two's complement for a negative one).
\<close>

fun beBytes :: "nat \<Rightarrow> nat \<Rightarrow> bytes" where
  "beBytes 0 m = []"
| "beBytes (Suc k) m = beBytes k (m div 256) @ [of_nat (m mod 256)]"

definition addressBytes :: "Address \<Rightarrow> bytes" where
  "addressBytes a = beBytes 20 (unat a)"

definition saltBytes :: "256 word \<Rightarrow> bytes" where
  "saltBytes s = beBytes 32 (unat s)"

definition u256Bytes :: "int \<Rightarrow> bytes" where
  "u256Bytes n = beBytes 32 (nat (n mod 2 ^ 256))"

text \<open>
  \<open>big.Int.SetString(s, base)\<close> for a base from 2 to 36: an optional sign, then at
  least one digit of the base (letters in either case), and nothing else.
\<close>

definition digitVal :: "char \<Rightarrow> nat option" where
  "digitVal c =
     (let n = of_char c :: nat in
      if 48 \<le> n \<and> n \<le> 57 then Some (n - 48)
      else if 97 \<le> n \<and> n \<le> 122 then Some (n - 97 + 10)
      else if 65 \<le> n \<and> n \<le> 90 then Some (n - 65 + 10)
      else None)"

fun scanDigits :: "nat \<Rightarrow> nat \<Rightarrow> string \<Rightarrow> nat option" where
  "scanDigits base acc [] = Some acc"
| "scanDigits base acc (c # rest) =
     (case digitVal c of
        None \<Rightarrow> None
      | Some d \<Rightarrow> if d < base then scanDigits base (acc * base + d) rest else None)"

definition setString :: "string \<Rightarrow> nat \<Rightarrow> int option" where
  "setString s base =
     (let neg = (s \<noteq> [] \<and> hd s = CHR ''-'');
          digits = (if s \<noteq> [] \<and> (hd s = CHR ''-'' \<or> hd s = CHR ''+'') then tl s else s)
      in if digits = [] then None
         else (case scanDigits base 0 digits of
                 None \<Rightarrow> None
               | Some n \<Rightarrow> Some (if neg then - int n else int n)))"

text \<open>
  \<open>big.Int.String\<close>: the decimal digits, with a minus sign for a negative value.
\<close>

function natString :: "nat \<Rightarrow> string" where
  "natString n =
     (if n < 10 then [char_of (48 + n)]
      else natString (n div 10) @ [char_of (48 + n mod 10)])"
  by pat_completeness auto
termination natString
  by (relation "measure (\<lambda>n. n)") auto

declare natString.simps [simp del]

definition bigIntString :: "int \<Rightarrow> string" where
  "bigIntString n = (if n < 0 then CHR ''-'' # natString (nat (- n)) else natString (nat n))"

text \<open>
  \<open>hex.DecodeString\<close> and \<open>hex.EncodeToString\<close> (lower case), and on top of them
  \<open>hexutil.Encode\<close> and \<open>hexutil.Decode\<close>, which put and require the \<open>0x\<close> prefix;
  \<open>hexutil.Decode\<close> also refuses the empty string.
\<close>

definition fromHexChar :: "char \<Rightarrow> nat option" where
  "fromHexChar c =
     (let n = of_char c :: nat in
      if 48 \<le> n \<and> n \<le> 57 then Some (n - 48)
      else if 97 \<le> n \<and> n \<le> 102 then Some (n - 97 + 10)
      else if 65 \<le> n \<and> n \<le> 70 then Some (n - 65 + 10)
      else None)"

fun hexDecodeString :: "string \<Rightarrow> bytes option" where
  "hexDecodeString [] = Some []"
| "hexDecodeString [c] = None"
| "hexDecodeString (a # b # rest) =
     (case fromHexChar a of
        None \<Rightarrow> None
      | Some x \<Rightarrow>
          (case fromHexChar b of
             None \<Rightarrow> None
           | Some y \<Rightarrow>
               (case hexDecodeString rest of
                  None \<Rightarrow> None
                | Some bs \<Rightarrow> Some (of_nat (16 * x + y) # bs))))"

definition hexChar :: "nat \<Rightarrow> char" where
  "hexChar d = (if d < 10 then char_of (48 + d) else char_of (87 + d))"

fun hexEncodeToString :: "bytes \<Rightarrow> string" where
  "hexEncodeToString [] = []"
| "hexEncodeToString (b # bs) =
     hexChar (unat b div 16) # hexChar (unat b mod 16) # hexEncodeToString bs"

definition has0xPrefix :: "string \<Rightarrow> bool" where
  "has0xPrefix s =
     (length s \<ge> 2 \<and> s ! 0 = CHR ''0'' \<and> (s ! 1 = CHR ''x'' \<or> s ! 1 = CHR ''X''))"

definition hexutilEncode :: "bytes \<Rightarrow> string" where
  "hexutilEncode b = ''0x'' @ hexEncodeToString b"

definition hexutilDecode :: "string \<Rightarrow> bytes option" where
  "hexutilDecode input =
     (if input = [] then None
      else if \<not> has0xPrefix input then None
      else hexDecodeString (drop 2 input))"

text \<open>
  \<open>common.IsHexAddress\<close> and \<open>common.HexToAddress\<close>. The source calls the second
  only on a string the first accepts: forty hexadecimal digits after an optional
  \<open>0x\<close> or \<open>0X\<close>, read here as one big-endian number.
\<close>

definition isHexAddress :: "string \<Rightarrow> bool" where
  "isHexAddress s =
     (let s = (if has0xPrefix s then drop 2 s else s)
      in length s = 40 \<and> list_all (\<lambda>c. fromHexChar c \<noteq> None) s)"

definition hexToAddress :: "string \<Rightarrow> Address" where
  "hexToAddress s =
     (let s = (if has0xPrefix s then drop 2 s else s)
      in of_nat (foldl (\<lambda>acc c. 16 * acc + (case fromHexChar c of Some d \<Rightarrow> d | None \<Rightarrow> 0)) 0 s))"

subsection \<open>The helper conversions of the fast encoder\<close>

definition toAddress :: "Value \<Rightarrow> error + Address" where
  "toAddress v =
     (case v of
        VAddress a \<Rightarrow> Inr a
      | VString s \<Rightarrow> if \<not> isHexAddress s then Inl (InvalidAddress s) else Inr (hexToAddress s)
      | _ \<Rightarrow> Inl InvalidAddressType)"

definition toBool :: "Value \<Rightarrow> bool" where
  "toBool v =
     (case v of
        VBool b \<Rightarrow> b
      | VString s \<Rightarrow> s = ''true'' \<or> s = ''1''
      | _ \<Rightarrow> False)"

text \<open>
  \<open>toString\<close>: a string is taken as it is, a \<open>fmt.Stringer\<close> (of the modelled values,
  \<open>*big.Int\<close> and \<open>common.Address\<close>) through its \<open>String\<close> method, anything else
  through \<open>fmt.Sprintf("%v", value)\<close>.
\<close>

definition toString :: "Lib \<Rightarrow> Value \<Rightarrow> string" where
  "toString L v =
     (case v of
        VString s \<Rightarrow> s
      | VBigInt n \<Rightarrow> bigIntString n
      | VAddress a \<Rightarrow> AddressHex L a
      | _ \<Rightarrow> Sprint L v)"

definition toBytes :: "Value \<Rightarrow> error + bytes" where
  "toBytes v =
     (case v of
        VBytes b \<Rightarrow> Inr b
      | VString s \<Rightarrow>
          if hasPrefix s ''0x'' then
            (case hexDecodeString (drop 2 s) of
               None \<Rightarrow> Inl InvalidHexString
             | Some b \<Rightarrow> Inr b)
          else Inr (bytesOfString s)
      | _ \<Rightarrow> Inl InvalidBytesValueType)"

definition toBigInt :: "Value \<Rightarrow> error + int" where
  "toBigInt v =
     (case v of
        VBigInt n \<Rightarrow> Inr n
      | VString s \<Rightarrow>
          if hasPrefix s ''0x'' then
            (case setString (drop 2 s) 16 of
               None \<Rightarrow> Inl (InvalidHexNumber s)
             | Some n \<Rightarrow> Inr n)
          else
            (case setString s 10 of
               None \<Rightarrow> Inl (InvalidDecimalNumber s)
             | Some n \<Rightarrow> Inr n)
      | VInt64 w \<Rightarrow> Inr (sint w)
      | VUint64 w \<Rightarrow> Inr (uint w)
      | _ \<Rightarrow> Inl InvalidIntegerType)"

subsection \<open>Primitive leaves\<close>

text \<open>
  \<open>encodeFixedBytes\<close>: the size is 32 for \<open>bytes32\<close>; otherwise the type must match
  \<open>^bytes(\d+)$\<close> and the number must lie in 1..32 (\<open>strconv.Atoi\<close> fails only on a
  number far above 32). The bytes are padded with zeros on the right.
\<close>

definition encodeFixedBytes :: "string \<Rightarrow> Value \<Rightarrow> error + bytes" where
  "encodeFixedBytes fieldType v =
     (let digits = drop 5 fieldType;
          matches = (hasPrefix fieldType ''bytes'' \<and> digits \<noteq> []
                     \<and> list_all (\<lambda>c. 48 \<le> (of_char c :: nat) \<and> (of_char c :: nat) \<le> 57) digits);
          sz = (if fieldType = ''bytes32'' then Inr 32
                else if \<not> matches then Inl (InvalidBytesType fieldType)
                else
                  (case scanDigits 10 0 digits of
                     None \<Rightarrow> Inl (InvalidBytesSize digits)
                   | Some n \<Rightarrow>
                       if n < 1 \<or> n > 32 then Inl (InvalidBytesSize digits) else Inr n))
      in case sz of
           Inl err \<Rightarrow> Inl err
         | Inr n \<Rightarrow>
             (case toBytes v of
                Inl err \<Rightarrow> Inl err
              | Inr b \<Rightarrow>
                  if length b > n then Inl (BytesTooLong fieldType)
                  else Inr (b @ replicate (32 - length b) 0)))"

text \<open>
  \<open>encodeInteger\<close>: the only test is the sign, for a type that starts with \<open>uint\<close>;
  \<open>math.U256Bytes\<close> then reduces the value modulo \<open>2^256\<close> and writes 32 bytes.
\<close>

definition encodeInteger :: "string \<Rightarrow> Value \<Rightarrow> error + bytes" where
  "encodeInteger fieldType v =
     (case toBigInt v of
        Inl err \<Rightarrow> Inl err
      | Inr n \<Rightarrow>
          if hasPrefix fieldType ''uint'' \<and> n < 0 then Inl (NegativeForUnsigned fieldType)
          else Inr (u256Bytes n))"

definition encodePrimitive :: "Lib \<Rightarrow> string \<Rightarrow> Value \<Rightarrow> error + bytes" where
  "encodePrimitive L fieldType v =
     (if fieldType = ''address'' then
        (case toAddress v of
           Inl err \<Rightarrow> Inl err
         | Inr addr \<Rightarrow> Inr (replicate 12 0 @ addressBytes addr))
      else if fieldType = ''bool'' then
        Inr (replicate 31 0 @ [if toBool v then 1 else 0])
      else if fieldType = ''string'' then
        Inr (Keccak256 L (bytesOfString (toString L v)))
      else if fieldType = ''bytes'' then
        (case toBytes v of
           Inl err \<Rightarrow> Inl err
         | Inr b \<Rightarrow> Inr (Keccak256 L b))
      else if hasPrefix fieldType ''bytes'' then encodeFixedBytes fieldType v
      else if hasPrefix fieldType ''uint'' \<or> hasPrefix fieldType ''int'' then
        encodeInteger fieldType v
      else Inl (UnsupportedType fieldType))"

section \<open>The fast encoder\<close>

text \<open>
  The encoder holds the caller's schema (a Go map, so the very map of the caller),
  the primary type, the domain and the message. Its cache is the process-wide
  \<open>globalEncoderCache\<close>: three Go maps keyed by the type name alone. The cache is
  state that outlives a call, so every function that reads or writes it takes the
  cache and returns it.
\<close>

record FastTypedDataEncoder =
  Types :: Types
  PrimaryType :: string
  Domain :: Domain
  Message :: Message

record encoderCache =
  typeHashes :: "string \<rightharpoonup> bytes"
  encodedTypes :: "string \<rightharpoonup> string"
  dependencies :: "string \<rightharpoonup> string list"

definition globalEncoderCache :: encoderCache where
  "globalEncoderCache =
     \<lparr>typeHashes = Map.empty, encodedTypes = Map.empty, dependencies = Map.empty\<rparr>"

definition NewFastTypedDataEncoder ::
  "Domain \<Rightarrow> Types \<Rightarrow> string \<Rightarrow> Message \<Rightarrow> FastTypedDataEncoder" where
  "NewFastTypedDataEncoder domain types primaryType message =
     \<lparr>Types = types, PrimaryType = primaryType, Domain = domain, Message = message\<rparr>"

subsection \<open>Dependencies and the canonical type string\<close>

text \<open>
  \<open>findDependencies\<close> fills the set \<open>deps\<close> (a Go \<open>map[string]bool\<close> whose entries are
  all true: here the list of its keys); \<open>findDependenciesFields\<close> is its loop over
  the fields.
\<close>

function findDependencies :: "FastTypedDataEncoder \<Rightarrow> string \<Rightarrow> string list \<Rightarrow> string list"
  and findDependenciesFields :: "FastTypedDataEncoder \<Rightarrow> Type list \<Rightarrow> string list \<Rightarrow> string list"
where
  "findDependencies e typeName deps =
     (if typeName \<in> set deps then deps
      else
        (case map_of (Types e) typeName of
           None \<Rightarrow> deps
         | Some flds \<Rightarrow> findDependenciesFields e flds (typeName # deps)))"
| "findDependenciesFields e [] deps = deps"
| "findDependenciesFields e (field # rest) deps =
     (if map_of (Types e) (trimSuffix (Type field) ''[]'') \<noteq> None
      then findDependenciesFields e rest
             (findDependencies e (trimSuffix (Type field) ''[]'') deps)
      else findDependenciesFields e rest deps)"
  by pat_completeness auto

lemma findDependencies_mono:
  "findDependencies_findDependenciesFields_dom (Inl (e, typeName, deps)) \<Longrightarrow>
     set deps \<subseteq> set (findDependencies e typeName deps)"
  "findDependencies_findDependenciesFields_dom (Inr (e, flds, deps)) \<Longrightarrow>
     set deps \<subseteq> set (findDependenciesFields e flds deps)"
proof (induction e typeName deps and e flds deps
       rule: findDependencies_findDependenciesFields.pinduct)
  case (1 e typeName deps)
  then show ?case
    by (auto simp: findDependencies.psimps split: option.splits)
next
  case (2 e deps)
  then show ?case by (simp add: findDependenciesFields.psimps)
next
  case (3 e field rest deps)
  then show ?case
    by (auto simp: findDependenciesFields.psimps split: option.splits)
qed

termination findDependencies
proof (relation "inv_image (less_than <*lex*> less_than)
         (\<lambda>x. case x of
             Inl (e, typeName, deps) \<Rightarrow> (unvisited (Types e) (\<lambda>k. k \<in> set deps), 0)
           | Inr (e, flds, deps) \<Rightarrow>
               (unvisited (Types e) (\<lambda>k. k \<in> set deps), Suc (length flds)))",
       goal_cases)
  case 1
  then show ?case by (intro wf_inv_image wf_lex_prod wf_less_than)
next
  case (2 e typeName deps flds)
  have "(\<lambda>k. k \<in> set (typeName # deps)) = (\<lambda>k. k \<in> set deps)(typeName := True)"
    by (rule ext) simp
  then show ?case
    using 2 unvisited_mark[of "Types e" typeName flds "\<lambda>k. k \<in> set deps"] by simp
next
  case (3 e field rest deps)
  then show ?case by simp
next
  case (4 e field rest deps)
  have "unvisited (Types e)
          (\<lambda>k. k \<in> set (findDependencies e (trimSuffix (Type field) ''[]'') deps))
        \<le> unvisited (Types e) (\<lambda>k. k \<in> set deps)"
    using findDependencies_mono(1)[OF 4(2)] by (intro unvisited_mono) auto
  then show ?case by auto
next
  case (5 e field rest deps)
  then show ?case by simp
qed

lemmas dependency_simps = findDependencies.simps findDependenciesFields.simps

declare dependency_simps [simp del]

text \<open>
  The method \<open>dependencies\<close> (here \<open>dependenciesOf\<close>, the cache's field has the
  name): the cached list if the cache has one under this name, otherwise the keys of
  the set in \<open>sort.Strings\<close> order, which it stores.
\<close>

definition dependenciesOf ::
  "FastTypedDataEncoder \<Rightarrow> string \<Rightarrow> encoderCache \<Rightarrow> string list \<times> encoderCache" where
  "dependenciesOf e typeName c =
     (case dependencies c typeName of
        Some deps \<Rightarrow> (deps, c)
      | None \<Rightarrow>
          (let result = sort (findDependencies e typeName [])
           in (result, c\<lparr>dependencies := (dependencies c)(typeName \<mapsto> result)\<rparr>)))"

text \<open>
  One declaration \<open>Name(type1 name1,type2 name2)\<close> of \<open>encodeType\<close>; \<open>e.Types[dep]\<close> of a
  name that is not in the schema is the nil slice, which gives \<open>Name()\<close>.
\<close>

definition encodeFields :: "Type list \<Rightarrow> string" where
  "encodeFields flds = join (map (\<lambda>field. Type field @ '' '' @ Type.Name field) flds) '',''"

definition encodeType ::
  "FastTypedDataEncoder \<Rightarrow> string \<Rightarrow> encoderCache \<Rightarrow> (error + string) \<times> encoderCache" where
  "encodeType e typeName c =
     (case encodedTypes c typeName of
        Some encoded \<Rightarrow> (Inr encoded, c)
      | None \<Rightarrow>
          (case dependenciesOf e typeName c of
             (deps, c1) \<Rightarrow>
               (case map_of (Types e) typeName of
                  None \<Rightarrow> (Inl (TypeNotFound typeName), c1)
                | Some flds \<Rightarrow>
                    (let parts =
                           [typeName @ ''('' @ encodeFields flds @ '')'']
                           @ map (\<lambda>dep. dep @ ''(''
                                    @ encodeFields (case map_of (Types e) dep of
                                                      None \<Rightarrow> [] | Some fs \<Rightarrow> fs)
                                    @ '')'')
                               (filter (\<lambda>dep. dep \<noteq> typeName) deps);
                         encoded = concat parts
                     in (Inr encoded,
                         c1\<lparr>encodedTypes := (encodedTypes c1)(typeName \<mapsto> encoded)\<rparr>)))))"

definition typeHash ::
  "Lib \<Rightarrow> FastTypedDataEncoder \<Rightarrow> string \<Rightarrow> encoderCache \<Rightarrow> (error + bytes) \<times> encoderCache" where
  "typeHash L e typeName c =
     (case typeHashes c typeName of
        Some hash \<Rightarrow> (Inr hash, c)
      | None \<Rightarrow>
          (case encodeType e typeName c of
             (Inl err, c1) \<Rightarrow> (Inl err, c1)
           | (Inr encoded, c1) \<Rightarrow>
               (let hash = Keccak256 L (bytesOfString encoded)
                in (Inr hash, c1\<lparr>typeHashes := (typeHashes c1)(typeName \<mapsto> hash)\<rparr>))))"

subsection \<open>Encoding a value against the schema\<close>

text \<open>
  What \<open>reflect\<close> sees of a value in \<open>encodeArray\<close>: a slice and its elements. A
  \<open>[]byte\<close> is a slice too, of \<open>uint8\<close> elements.
\<close>

definition sliceElems :: "Value \<Rightarrow> Value list option" where
  "sliceElems v =
     (case v of
        VSlice elems \<Rightarrow> Some elems
      | VBytes b \<Rightarrow> Some (map VUint8 b)
      | _ \<Rightarrow> None)"

text \<open>The test \<open>elementType == "string"\<close> with \<open>elem.(string)\<close> of the element loop.\<close>

definition stringElem :: "string \<Rightarrow> Value \<Rightarrow> string option" where
  "stringElem elementType elem =
     (if elementType = ''string'' then (case elem of VString str \<Rightarrow> Some str | _ \<Rightarrow> None)
      else None)"

text \<open>The size of a value, which the recursion of the encoder descends on.\<close>

fun vsize :: "Value \<Rightarrow> nat" where
  "vsize (VSlice elems) = Suc (sum_list (map vsize elems))"
| "vsize (VMap entries) = Suc (sum_list (map (\<lambda>kv. vsize (snd kv)) entries))"
| "vsize (VBytes b) = Suc (length b)"
| "vsize v = 1"

text \<open>
  \<open>encodeArrayElems\<close> is the element loop of \<open>encodeArray\<close> (index and buffer so far),
  \<open>encodeDataFields\<close> the field loop of \<open>encodeData\<close> (buffer so far).
\<close>

function encodeValue ::
    "Lib \<Rightarrow> FastTypedDataEncoder \<Rightarrow> string \<Rightarrow> Value \<Rightarrow> encoderCache
       \<Rightarrow> (error + bytes) \<times> encoderCache"
  and encodeArray ::
    "Lib \<Rightarrow> FastTypedDataEncoder \<Rightarrow> string \<Rightarrow> Value \<Rightarrow> encoderCache
       \<Rightarrow> (error + bytes) \<times> encoderCache"
  and encodeArrayElems ::
    "Lib \<Rightarrow> FastTypedDataEncoder \<Rightarrow> string \<Rightarrow> Value list \<Rightarrow> nat \<Rightarrow> bytes \<Rightarrow> encoderCache
       \<Rightarrow> (error + bytes) \<times> encoderCache"
  and encodeStruct ::
    "Lib \<Rightarrow> FastTypedDataEncoder \<Rightarrow> string \<Rightarrow> Value \<Rightarrow> encoderCache
       \<Rightarrow> (error + bytes) \<times> encoderCache"
  and hashStruct ::
    "Lib \<Rightarrow> FastTypedDataEncoder \<Rightarrow> string \<Rightarrow> Message \<Rightarrow> encoderCache
       \<Rightarrow> (error + bytes) \<times> encoderCache"
  and encodeData ::
    "Lib \<Rightarrow> FastTypedDataEncoder \<Rightarrow> string \<Rightarrow> Message \<Rightarrow> encoderCache
       \<Rightarrow> (error + bytes) \<times> encoderCache"
  and encodeDataFields ::
    "Lib \<Rightarrow> FastTypedDataEncoder \<Rightarrow> Type list \<Rightarrow> Message \<Rightarrow> bytes \<Rightarrow> encoderCache
       \<Rightarrow> (error + bytes) \<times> encoderCache"
where
  "encodeValue L e fieldType v c =
     (if hasSuffix fieldType ''[]'' then encodeArray L e fieldType v c
      else if map_of (Types e) fieldType \<noteq> None then encodeStruct L e fieldType v c
      else (encodePrimitive L fieldType v, c))"
| "encodeArray L e fieldType v c =
     (case sliceElems v of
        None \<Rightarrow> (Inl (ExpectedSlice fieldType), c)
      | Some elems \<Rightarrow>
          (case encodeArrayElems L e (trimSuffix fieldType ''[]'') elems 0 [] c of
             (Inl err, c1) \<Rightarrow> (Inl err, c1)
           | (Inr buf, c1) \<Rightarrow> (Inr (Keccak256 L buf), c1)))"
| "encodeArrayElems L e elementType [] i buf c = (Inr buf, c)"
| "encodeArrayElems L e elementType (elem # rest) i buf c =
     (case stringElem elementType elem of
        Some str \<Rightarrow>
          encodeArrayElems L e elementType rest (Suc i)
            (buf @ Keccak256 L (bytesOfString str)) c
      | None \<Rightarrow>
          (case encodeValue L e elementType elem c of
             (Inl err, c1) \<Rightarrow> (Inl (EncodeArrayElementFailed i err), c1)
           | (Inr encoded, c1) \<Rightarrow>
               encodeArrayElems L e elementType rest (Suc i) (buf @ encoded) c1))"
| "encodeStruct L e fieldType v c =
     (case v of
        VMap data \<Rightarrow> hashStruct L e fieldType data c
      | _ \<Rightarrow> (Inl InvalidStructValue, c))"
| "hashStruct L e primaryType data c =
     (case encodeData L e primaryType data c of
        (Inl err, c1) \<Rightarrow> (Inl err, c1)
      | (Inr encoded, c1) \<Rightarrow> (Inr (Keccak256 L encoded), c1))"
| "encodeData L e primaryType data c =
     (case typeHash L e primaryType c of
        (Inl err, c1) \<Rightarrow> (Inl err, c1)
      | (Inr hash, c1) \<Rightarrow>
          (case map_of (Types e) primaryType of
             None \<Rightarrow> (Inl (TypeNotFound primaryType), c1)
           | Some flds \<Rightarrow> encodeDataFields L e flds data hash c1))"
| "encodeDataFields L e [] data buf c = (Inr buf, c)"
| "encodeDataFields L e (field # rest) data buf c =
     (case map_of data (Type.Name field) of
        None \<Rightarrow> (Inl (FieldNotFound (Type.Name field)), c)
      | Some v \<Rightarrow>
          (case encodeValue L e (Type field) v c of
             (Inl err, c1) \<Rightarrow> (Inl (EncodeFieldFailed (Type.Name field) err), c1)
           | (Inr encoded, c1) \<Rightarrow> encodeDataFields L e rest data (buf @ encoded) c1))"
  by pat_completeness auto

text \<open>
  Termination: a call either descends into a strictly smaller value, or stays on the
  same value and moves from \<open>encodeValue\<close> towards the two loops, or shortens the
  list of fields still to encode.
\<close>

lemma vsize_pos: "0 < vsize v"
  by (cases v) simp_all

lemma vsize_uint8_elems: "sum_list (map (vsize \<circ> VUint8) b) = length b"
  by (induction b) simp_all

lemma vsize_sliceElems:
  "sliceElems v = Some elems \<Longrightarrow> Suc (sum_list (map vsize elems)) = vsize v"
  by (cases v) (auto simp: sliceElems_def vsize_uint8_elems)

lemma vsize_map_of:
  "map_of entries k = Some v \<Longrightarrow> vsize v \<le> sum_list (map (\<lambda>kv. vsize (snd kv)) entries)"
  by (induction entries) (auto split: if_splits)

definition encodeRank ::
  "((Lib \<times> FastTypedDataEncoder \<times> string \<times> Value \<times> encoderCache)
    + (Lib \<times> FastTypedDataEncoder \<times> string \<times> Value \<times> encoderCache)
    + (Lib \<times> FastTypedDataEncoder \<times> string \<times> Value list \<times> nat \<times> bytes \<times> encoderCache))
   + ((Lib \<times> FastTypedDataEncoder \<times> string \<times> Value \<times> encoderCache)
      + (Lib \<times> FastTypedDataEncoder \<times> string \<times> Message \<times> encoderCache))
   + (Lib \<times> FastTypedDataEncoder \<times> string \<times> Message \<times> encoderCache)
   + (Lib \<times> FastTypedDataEncoder \<times> Type list \<times> Message \<times> bytes \<times> encoderCache)
   \<Rightarrow> nat \<times> nat \<times> nat" where
  "encodeRank x =
     (case x of
        Inl (Inl (L, e, fieldType, v, c)) \<Rightarrow> (vsize v, 5, 0)
      | Inl (Inr (Inl (L, e, fieldType, v, c))) \<Rightarrow> (vsize v, 4, 0)
      | Inl (Inr (Inr (L, e, elementType, elems, i, buf, c))) \<Rightarrow>
          (Suc (sum_list (map vsize elems)), 1, 0)
      | Inr (Inl (Inl (L, e, fieldType, v, c))) \<Rightarrow> (vsize v, 4, 0)
      | Inr (Inl (Inr (L, e, primaryType, data, c))) \<Rightarrow> (vsize (VMap data), 3, 0)
      | Inr (Inr (Inl (L, e, primaryType, data, c))) \<Rightarrow> (vsize (VMap data), 2, 0)
      | Inr (Inr (Inr (L, e, flds, data, buf, c))) \<Rightarrow> (vsize (VMap data), 1, length flds))"

termination encodeValue
proof (relation "inv_image (less_than <*lex*> less_than <*lex*> less_than) encodeRank",
       goal_cases)
  case 1
  then show ?case by (intro wf_inv_image wf_lex_prod wf_less_than)
next
  case (4 L e fieldType v c elems)
  then show ?case
    using vsize_sliceElems[of v elems] by (simp add: encodeRank_def)
next
  case (5 L e elementType elem rest i buf c)
  then show ?case by (simp add: encodeRank_def)
next
  case (6 L e elementType elem rest i buf c x y b)
  then show ?case using vsize_pos[of elem] by (simp add: encodeRank_def)
next
  case (7 L e elementType elem rest i buf c str)
  then show ?case using vsize_pos[of elem] by (simp add: encodeRank_def)
next
  case (11 L e field rest data buf c v)
  then show ?case
    using vsize_map_of[of data "Type.Name field" v] by (simp add: encodeRank_def)
qed (simp_all add: encodeRank_def)

text \<open>The equations of the encoder are unfolded on demand only.\<close>

lemmas encode_simps =
  encodeValue.simps encodeArray.simps encodeArrayElems.simps encodeStruct.simps
  hashStruct.simps encodeData.simps encodeDataFields.simps

declare encode_simps [simp del]

definition validate :: "FastTypedDataEncoder \<Rightarrow> error option" where
  "validate e = validateNoCycles (Types e)"

definition buildDomainTypes :: "FastTypedDataEncoder \<Rightarrow> Type list" where
  "buildDomainTypes e =
     (let types = [\<lparr>Type.Name = ''name'', Type = ''string''\<rparr>,
                   \<lparr>Type.Name = ''version'', Type = ''string''\<rparr>];
          types = (if ChainID (Domain e) \<noteq> None
                   then types @ [\<lparr>Type.Name = ''chainId'', Type = ''uint256''\<rparr>] else types);
          types = (if VerifyingContract (Domain e) \<noteq> 0
                   then types @ [\<lparr>Type.Name = ''verifyingContract'', Type = ''address''\<rparr>]
                   else types);
          types = (if Salt (Domain e) \<noteq> 0
                   then types @ [\<lparr>Type.Name = ''salt'', Type = ''bytes32''\<rparr>] else types)
      in types)"

text \<open>
  \<open>domainToMap\<close>: the Go map it builds has one entry per key; the order of the list
  is of no consequence, the encoder only looks names up.
\<close>

definition domainToMap :: "Lib \<Rightarrow> FastTypedDataEncoder \<Rightarrow> Message" where
  "domainToMap L e =
     (let m = [(''name'', VString (Domain.Name (Domain e))),
               (''version'', VString (Version (Domain e)))];
          m = (case ChainID (Domain e) of
                 None \<Rightarrow> m
               | Some n \<Rightarrow> m @ [(''chainId'', VString (bigIntString n))]);
          m = (if VerifyingContract (Domain e) \<noteq> 0
               then m @ [(''verifyingContract'',
                          VString (AddressHex L (VerifyingContract (Domain e))))]
               else m);
          m = (if Salt (Domain e) \<noteq> 0
               then m @ [(''salt'', VString (''0x'' @ hexEncodeToString (saltBytes (Salt (Domain e)))))]
               else m)
      in m)"

text \<open>
  \<open>Hash\<close>. The assignment \<open>e.Types["EIP712Domain"] = ...\<close> writes into the map the
  encoder was given, so \<open>Hash\<close> returns the encoder with the map as the call leaves it,
  next to the digest (or the error) and the cache.
\<close>

definition Hash ::
  "Lib \<Rightarrow> FastTypedDataEncoder \<Rightarrow> encoderCache
     \<Rightarrow> (error + bytes) \<times> FastTypedDataEncoder \<times> encoderCache" where
  "Hash L e c =
     (case validate e of
        Some err \<Rightarrow> (Inl err, e, c)
      | None \<Rightarrow>
          (let e = (if map_of (Types e) ''EIP712Domain'' = None
                    then e\<lparr>Types := Types e @ [(''EIP712Domain'', buildDomainTypes e)]\<rparr>
                    else e)
           in case hashStruct L e ''EIP712Domain'' (domainToMap L e) c of
                (Inl err, c1) \<Rightarrow> (Inl (HashDomainFailed err), e, c1)
              | (Inr domainSeparator, c1) \<Rightarrow>
                  (case hashStruct L e (PrimaryType e) (Message e) c1 of
                     (Inl err, c2) \<Rightarrow> (Inl (HashMessageFailed err), e, c2)
                   | (Inr messageHash, c2) \<Rightarrow>
                       (Inr (Keccak256 L ([0x19, 0x01] @ domainSeparator @ messageHash)),
                        e, c2))))"

section \<open>Signing and recovery\<close>

text \<open>
  The cryptographic primitives and the reference hasher are external (go-ethereum's
  \<open>crypto\<close> and \<open>apitypes\<close> packages); the functions below take them as a record
  over the types of private and public keys. A primitive that reports an error
  returns \<open>None\<close>.
\<close>

datatype TypedDataDomain = TypedDataDomain string string "int option" string string

datatype TypedData = TypedData "string \<rightharpoonup> Type list" string TypedDataDomain Message

record ('k, 'p) Crypto =
  HexToECDSA :: "string \<Rightarrow> 'k option"
  Public :: "'k \<Rightarrow> 'p"
  PubkeyToAddress :: "'p \<Rightarrow> Address"
  Sign :: "bytes \<Rightarrow> 'k \<Rightarrow> bytes option"
  SigToPub :: "bytes \<Rightarrow> bytes \<Rightarrow> 'p option"
  TypedDataAndHash :: "TypedData \<Rightarrow> bytes option"

record 'k Signer =
  privateKey :: 'k
  address :: Address
  chainID :: int

text \<open>\<open>FastSigner\<close> is a second struct with the same three fields.\<close>

type_synonym 'k FastSigner = "'k Signer"

definition trimPrefix :: "string \<Rightarrow> string \<Rightarrow> string" where
  "trimPrefix s prefix = (if hasPrefix s prefix then drop (length prefix) s else s)"

definition NewSigner :: "('k, 'p) Crypto \<Rightarrow> string \<Rightarrow> 64 word \<Rightarrow> error + 'k Signer" where
  "NewSigner C privateKeyHex chainId =
     (case HexToECDSA C (trimPrefix privateKeyHex ''0x'') of
        None \<Rightarrow> Inl InvalidPrivateKey
      | Some key \<Rightarrow>
          Inr \<lparr>privateKey = key,
               address = PubkeyToAddress C (Public C key),
               chainID = sint chainId\<rparr>)"


definition domainToAPITypesStatic :: "Lib \<Rightarrow> Domain \<Rightarrow> TypedDataDomain" where
  "domainToAPITypesStatic L domain =
     TypedDataDomain (Domain.Name domain) (Version domain) (ChainID domain)
       (if VerifyingContract domain \<noteq> 0 then AddressHex L (VerifyingContract domain) else [])
       (if Salt domain \<noteq> 0 then hexutilEncode (saltBytes (Salt domain)) else [])"

definition domainToAPITypes :: "Lib \<Rightarrow> 'k Signer \<Rightarrow> Domain \<Rightarrow> TypedDataDomain" where
  "domainToAPITypes L s domain =
     TypedDataDomain (Domain.Name domain) (Version domain) (ChainID domain)
       (if VerifyingContract domain \<noteq> 0 then AddressHex L (VerifyingContract domain) else [])
       (if Salt domain \<noteq> 0 then hexutilEncode (saltBytes (Salt domain)) else [])"

definition buildDomainTypesOf :: "'k Signer \<Rightarrow> Domain \<Rightarrow> Type list" where
  "buildDomainTypesOf s domain = buildDomainTypesStatic domain"

text \<open>
  The loop that copies the caller's schema into a fresh \<open>apitypes.Types\<close> map, field
  by field, and the \<open>EIP712Domain\<close> entry added to that fresh map when it has none.
\<close>

definition convertTypes :: "Types \<Rightarrow> (string \<rightharpoonup> Type list)" where
  "convertTypes types =
     foldl (\<lambda>m (typeName, flds).
              m(typeName \<mapsto> map (\<lambda>field. \<lparr>Type.Name = Type.Name field, Type = Type field\<rparr>) flds))
       Map.empty types"

definition withDomainType :: "(string \<rightharpoonup> Type list) \<Rightarrow> Type list \<Rightarrow> (string \<rightharpoonup> Type list)" where
  "withDomainType m domainTypes =
     (if m ''EIP712Domain'' = None then m(''EIP712Domain'' \<mapsto> domainTypes) else m)"

text \<open>
  \<open>signature[64] += 27\<close> is byte arithmetic; on a slice shorter than 65 bytes the
  index panics, which is the error \<open>IndexOutOfRange\<close>.
\<close>

definition makeSignature :: "bytes \<Rightarrow> bytes \<Rightarrow> error + Signature" where
  "makeSignature hash signature =
     (if length signature < 65 then Inl IndexOutOfRange
      else
        (let signature = signature[64 := signature ! 64 + 27]
         in Inr \<lparr>R = hexutilEncode (take 32 signature),
                  S = hexutilEncode (take 32 (drop 32 signature)),
                  V = signature ! 64,
                  Hash = hexutilEncode hash,
                  Bytes = hexutilEncode signature\<rparr>))"

definition SignTypedData ::
  "Lib \<Rightarrow> ('k, 'p) Crypto \<Rightarrow> 'k Signer \<Rightarrow> Domain \<Rightarrow> Types \<Rightarrow> string \<Rightarrow> Message
     \<Rightarrow> error + Signature" where
  "SignTypedData L C s domain types primaryType message =
     (case validateNoCycles types of
        Some err \<Rightarrow> Inl err
      | None \<Rightarrow>
          (let typedData =
                 TypedData (withDomainType (convertTypes types) (buildDomainTypesOf s domain))
                   primaryType (domainToAPITypes L s domain) message
           in case TypedDataAndHash C typedData of
                None \<Rightarrow> Inl HashTypedDataFailed
              | Some hash \<Rightarrow>
                  (case Sign C hash (privateKey s) of
                     None \<Rightarrow> Inl SignFailed
                   | Some signature \<Rightarrow> makeSignature hash signature)))"

text \<open>
  The tail shared by \<open>Recover\<close> and \<open>RecoverSignatureFast\<close>: decode, test the length,
  shift \<open>v\<close>, call the recovery primitive.
\<close>

definition recoverAddress :: "('k, 'p) Crypto \<Rightarrow> bytes \<Rightarrow> Signature \<Rightarrow> error + Address" where
  "recoverAddress C hash sig =
     (case hexutilDecode (Bytes sig) of
        None \<Rightarrow> Inl InvalidSignatureHex
      | Some sigBytes \<Rightarrow>
          if length sigBytes \<noteq> 65 then Inl SignatureMustBe65Bytes
          else
            (let sigBytes = (if sigBytes ! 64 \<ge> 27
                             then sigBytes[64 := sigBytes ! 64 - 27] else sigBytes)
             in case SigToPub C hash sigBytes of
                  None \<Rightarrow> Inl RecoverPublicKeyFailed
                | Some pubKey \<Rightarrow> Inr (PubkeyToAddress C pubKey)))"

definition Recover ::
  "Lib \<Rightarrow> ('k, 'p) Crypto \<Rightarrow> Signature \<Rightarrow> Domain \<Rightarrow> Types \<Rightarrow> string \<Rightarrow> Message
     \<Rightarrow> error + Address" where
  "Recover L C sig domain types primaryType message =
     (let typedData =
            TypedData (withDomainType (convertTypes types) (buildDomainTypesStatic domain))
              primaryType (domainToAPITypesStatic L domain) message
      in case TypedDataAndHash C typedData of
           None \<Rightarrow> Inl HashTypedDataFailed
         | Some hash \<Rightarrow> recoverAddress C hash sig)"

definition VerifySignature ::
  "Lib \<Rightarrow> ('k, 'p) Crypto \<Rightarrow> Signature \<Rightarrow> Address \<Rightarrow> Domain \<Rightarrow> Types \<Rightarrow> string \<Rightarrow> Message
     \<Rightarrow> error + bool" where
  "VerifySignature L C signature expectedSigner domain types primaryType message =
     (case Recover L C signature domain types primaryType message of
        Inl err \<Rightarrow> Inl err
      | Inr recoveredAddr \<Rightarrow> Inr (recoveredAddr = expectedSigner))"

subsection \<open>The fast path\<close>

text \<open>
  The encoder is built on the caller's own map, so next to its result each function
  returns that map as the call leaves it, and the cache.
\<close>

definition SignTypedDataFast ::
  "Lib \<Rightarrow> ('k, 'p) Crypto \<Rightarrow> 'k FastSigner \<Rightarrow> Domain \<Rightarrow> Types \<Rightarrow> string \<Rightarrow> Message
     \<Rightarrow> encoderCache \<Rightarrow> (error + Signature) \<times> Types \<times> encoderCache" where
  "SignTypedDataFast L C s domain types primaryType message c =
     (case Hash L (NewFastTypedDataEncoder domain types primaryType message) c of
        (Inl err, encoder, c1) \<Rightarrow> (Inl (HashTypedDataFastFailed err), Types encoder, c1)
      | (Inr hash, encoder, c1) \<Rightarrow>
          (case Sign C hash (privateKey s) of
             None \<Rightarrow> (Inl SignFailed, Types encoder, c1)
           | Some signature \<Rightarrow> (makeSignature hash signature, Types encoder, c1)))"

definition RecoverSignatureFast ::
  "Lib \<Rightarrow> ('k, 'p) Crypto \<Rightarrow> Signature \<Rightarrow> Domain \<Rightarrow> Types \<Rightarrow> string \<Rightarrow> Message
     \<Rightarrow> encoderCache \<Rightarrow> (error + Address) \<times> Types \<times> encoderCache" where
  "RecoverSignatureFast L C sig domain types primaryType message c =
     (case Hash L (NewFastTypedDataEncoder domain types primaryType message) c of
        (Inl err, encoder, c1) \<Rightarrow> (Inl (HashTypedDataFastFailed err), Types encoder, c1)
      | (Inr hash, encoder, c1) \<Rightarrow> (recoverAddress C hash sig, Types encoder, c1))"

subsection \<open>Permits\<close>



subsection \<open>Stand-ins for the external libraries\<close>

text \<open>
  To run the model on concrete inputs the external functions need values. These
  stand-ins are of the right shape and nothing more: a digest of 32 bytes that
  depends on the input's length only, keys that are bytes, a signature that spells
  out its key, and the recovery that reads it back for the recovery ids 0 to 3, the
  four that secp256k1 recovery knows, and refuses any other.
\<close>

definition demoLib :: Lib where
  "demoLib =
     \<lparr>Keccak256 = (\<lambda>b. replicate 32 (of_nat (length b))),
      AddressHex = (\<lambda>a. ''0x'' @ hexEncodeToString (addressBytes a)),
      Sprint = (\<lambda>v. ''?'')\<rparr>"

definition demoCrypto :: "(byte, byte) Crypto" where
  "demoCrypto =
     \<lparr>HexToECDSA = (\<lambda>s. if s = [] then None else Some (of_nat (length s))),
      Public = (\<lambda>k. k + 1),
      PubkeyToAddress = (\<lambda>p. ucast p),
      Sign = (\<lambda>h k. Some (replicate 64 k @ [0])),
      SigToPub = (\<lambda>h sg. if length sg = 65 \<and> sg ! 64 < 4
                           then Some (sg ! 0 + 1) else None),
      TypedDataAndHash = (\<lambda>td. Some (replicate 32 0))\<rparr>"

definition demoDomain :: Domain where
  "demoDomain =
     \<lparr>Domain.Name = ''A'', Version = ''1'', ChainID = None, VerifyingContract = 0, Salt = 0\<rparr>"

section \<open>Notions for the properties\<close>

text \<open>
  The references the two searches of the schema follow: from a type to the type named
  by one of its fields, directly or with one trailing \<open>[]\<close> removed; and the
  targets of a list of fields under that relation.
\<close>

definition baseRefs :: "Types \<Rightarrow> (string \<times> string) set" where
  "baseRefs types =
     {(a, b). \<exists>flds field. map_of types a = Some flds \<and> field \<in> set flds
                \<and> b = trimSuffix (Type field) ''[]'' \<and> map_of types b \<noteq> None}"

definition fieldTargets :: "Types \<Rightarrow> Type list \<Rightarrow> string set" where
  "fieldTargets types flds =
     {b. \<exists>field \<in> set flds. b = trimSuffix (Type field) ''[]'' \<and> map_of types b \<noteq> None}"

text \<open>
  In the cycle check a type is finished when it is visited and no longer on the
  path; the finished types are settled when none of them lies on a cycle and all
  their references are finished. In the dependency search the found types are closed,
  except for the pending ones, when they contain all their references.
\<close>

definition finished :: "marks \<times> marks \<Rightarrow> string set" where
  "finished st = {k. fst st k \<and> \<not> snd st k}"

definition settled :: "Types \<Rightarrow> marks \<times> marks \<Rightarrow> bool" where
  "settled types st =
     (\<forall>b \<in> finished st.
        (b, b) \<notin> (baseRefs types)\<^sup>+
        \<and> (\<forall>c. (b, c) \<in> baseRefs types \<longrightarrow> c \<in> finished st))"

definition closedExcept :: "Types \<Rightarrow> string set \<Rightarrow> string set \<Rightarrow> bool" where
  "closedExcept types pending found =
     (\<forall>a \<in> found - pending. baseRefs types `` {a} \<subseteq> found)"



section \<open>Properties\<close>

subsection \<open>Unfolding on numerals\<close>

lemma beBytes_numeral:
  "beBytes (numeral k) m = beBytes (pred_numeral k) (m div 256) @ [of_nat (m mod 256)]"
  using beBytes.simps(2)[of "pred_numeral k" m] by (simp only: numeral_eq_Suc[symmetric])

lemma replicate_numeral: "replicate (numeral k) x = x # replicate (pred_numeral k) x"
  by (simp add: numeral_eq_Suc)

subsection \<open>Signatures: round trip and refusal\<close>

lemma fromHexChar_hexChar: "d < 16 \<Longrightarrow> fromHexChar (hexChar d) = Some d"
  by (auto simp: fromHexChar_def hexChar_def Let_def)

lemma byte_high_nibble: "unat (x :: byte) div 16 < 16"
proof -
  have "unat x < 256" using unsigned_less[of x] by simp
  then show ?thesis by arith
qed

lemma hexDecodeString_hexEncodeToString: "hexDecodeString (hexEncodeToString b) = Some b"
proof (induction b)
  case Nil
  then show ?case by simp
next
  case (Cons x xs)
  have "16 * (unat x div 16) + unat x mod 16 = unat x" by simp
  then show ?case
    using Cons by (simp add: fromHexChar_hexChar byte_high_nibble)
qed

lemma hexutilDecode_hexutilEncode: "hexutilDecode (hexutilEncode b) = Some b"
  by (simp add: hexutilDecode_def hexutilEncode_def has0xPrefix_def
      hexDecodeString_hexEncodeToString)

lemma byte_le_1: "x \<le> (1 :: byte) \<Longrightarrow> x = 0 \<or> x = 1"
  using order_antisym_conv word_le_sub1 by auto

lemma recoverAddress_makeSignature:
  assumes "length signature = 65" and "signature ! 64 \<le> 1"
    and "makeSignature hash signature = Inr sig"
  shows "recoverAddress C hash' sig =
           (case SigToPub C hash' signature of
              None \<Rightarrow> Inl RecoverPublicKeyFailed
            | Some pubKey \<Rightarrow> Inr (PubkeyToAddress C pubKey))"
proof -
  let ?shifted = "signature[64 := signature ! 64 + 27]"
  have bytes: "Bytes sig = hexutilEncode ?shifted"
    using assms(1,3) by (auto simp: makeSignature_def Let_def)
  have v: "?shifted ! 64 = signature ! 64 + 27"
    using assms(1) by simp
  have "signature ! 64 = 0 \<or> signature ! 64 = 1"
    using assms(2) by (rule byte_le_1)
  then have ge: "27 \<le> signature ! 64 + 27" by auto
  have restored: "?shifted[64 := ?shifted ! 64 - 27] = signature"
    using assms(1) by (simp add: v)
  show ?thesis
    using assms(1) ge restored
    by (simp add: recoverAddress_def bytes hexutilDecode_hexutilEncode v Let_def)
qed

text \<open>
  C1. Round trip of the reference path. The signing and recovery primitives are
  external; what is assumed of them is their contract: a signature that \<open>crypto.Sign\<close>
  returns has 65 bytes, its last byte is the recovery id 0 or 1, and
  \<open>crypto.SigToPub\<close> recovers the signing key's public key from it. Then, for a signer
  made by \<open>NewSigner\<close> and any domain, schema, primary type and message for which
  \<open>SignTypedData\<close> returns a signature, \<open>Recover\<close> on that signature returns the
  signer's address and \<open>VerifySignature\<close> against that address returns true.
\<close>

theorem Recover_SignTypedData:
  assumes prim: "\<And>h k sg. Sign C h k = Some sg \<Longrightarrow>
                   length sg = 65 \<and> sg ! 64 \<le> 1 \<and> SigToPub C h sg = Some (Public C k)"
    and signer: "NewSigner C privateKeyHex chainId = Inr s"
    and signed: "SignTypedData L C s domain types primaryType message = Inr sig"
  shows "Recover L C sig domain types primaryType message = Inr (address s)
         \<and> VerifySignature L C sig (address s) domain types primaryType message = Inr True"
proof -
  let ?typedData = "TypedData (withDomainType (convertTypes types) (buildDomainTypesStatic domain))
                      primaryType (domainToAPITypesStatic L domain) message"
  have same: "TypedData (withDomainType (convertTypes types) (buildDomainTypesOf s domain))
                primaryType (domainToAPITypes L s domain) message = ?typedData"
    by (simp add: buildDomainTypesOf_def domainToAPITypes_def domainToAPITypesStatic_def)
  obtain hash signature where
    hash: "TypedDataAndHash C ?typedData = Some hash"
    and sg: "Sign C hash (privateKey s) = Some signature"
    and mk: "makeSignature hash signature = Inr sig"
    using signed unfolding SignTypedData_def same
    by (auto simp: Let_def split: option.splits)
  have addr: "address s = PubkeyToAddress C (Public C (privateKey s))"
    using signer by (auto simp: NewSigner_def split: option.splits)
  have "recoverAddress C hash sig = Inr (address s)"
    using prim[OF sg] mk addr
    by (simp add: recoverAddress_makeSignature[of signature hash sig C hash])
  then have "Recover L C sig domain types primaryType message = Inr (address s)"
    by (simp add: Recover_def hash)
  then show ?thesis by (simp add: VerifySignature_def)
qed

theorem Recover_SignTypedData_witness:
  "\<exists>sig. SignTypedData demoLib demoCrypto \<lparr>privateKey = 2, address = 3, chainID = 1\<rparr>
             demoDomain [(''Empty'', [])] ''Empty'' [] = Inr sig
         \<and> Recover demoLib demoCrypto sig demoDomain [(''Empty'', [])] ''Empty'' [] = Inr 3
         \<and> VerifySignature demoLib demoCrypto sig 3 demoDomain [(''Empty'', [])] ''Empty'' []
             = Inr True"
proof -
  let ?s = "\<lparr>privateKey = 2 :: byte, address = 3, chainID = 1\<rparr>"
  have prim: "\<And>h k sg. Sign demoCrypto h k = Some sg \<Longrightarrow>
      length sg = 65 \<and> sg ! 64 \<le> 1 \<and> SigToPub demoCrypto h sg = Some (Public demoCrypto k)"
    by (auto simp: demoCrypto_def nth_append)
  have signer: "NewSigner demoCrypto ''0x01'' 1 = Inr ?s"
    by (simp add: NewSigner_def demoCrypto_def trimPrefix_def hasPrefix_def)
  obtain sig where signed:
    "SignTypedData demoLib demoCrypto ?s demoDomain [(''Empty'', [])] ''Empty'' [] = Inr sig"
    by (simp add: SignTypedData_def validateNoCycles_def makeSignature_def demoCrypto_def Let_def)
  show ?thesis
    using Recover_SignTypedData[OF prim signer signed] signed by auto
qed

text \<open>A run of \<open>Hash\<close> on the empty message, for any Keccak-256 and from the empty cache.\<close>

lemma Hash_Empty:
  "fst (Hash L (NewFastTypedDataEncoder demoDomain [(''Empty'', [])] ''Empty'' [])
          globalEncoderCache)
   = Inr (Keccak256 L
            ([0x19, 0x01]
             @ Keccak256 L
                 (Keccak256 L (bytesOfString ''EIP712Domain(string name,string version)'')
                  @ Keccak256 L (bytesOfString ''A'') @ Keccak256 L (bytesOfString ''1''))
             @ Keccak256 L (Keccak256 L (bytesOfString ''Empty()''))))"
  by (simp add: encode_simps dependency_simps Hash_def validate_def validateNoCycles_def buildDomainTypes_def
      domainToMap_def typeHash_def encodeType_def dependenciesOf_def encodeFields_def
      globalEncoderCache_def NewFastTypedDataEncoder_def demoDomain_def
      hasSuffix_def trimSuffix_def encodePrimitive_def toString_def Let_def)

lemma recoverAddress_decoded:
  "recoverAddress C hash (sig\<lparr>Bytes := hexutilEncode sigBytes\<rparr>) =
     (if length sigBytes = 65
      then (case SigToPub C hash
                   (sigBytes[64 := (if 27 \<le> sigBytes ! 64 then sigBytes ! 64 - 27
                                    else sigBytes ! 64)]) of
              None \<Rightarrow> Inl RecoverPublicKeyFailed
            | Some pubKey \<Rightarrow> Inr (PubkeyToAddress C pubKey))
      else Inl SignatureMustBe65Bytes)"
  by (simp add: recoverAddress_def hexutilDecode_hexutilEncode Let_def)

lemma RecoverSignatureFast_fst:
  "fst (RecoverSignatureFast L C sig domain types primaryType message c) =
     (case fst (Hash L (NewFastTypedDataEncoder domain types primaryType message) c) of
        Inl err \<Rightarrow> Inl (HashTypedDataFastFailed err)
      | Inr hash \<Rightarrow> recoverAddress C hash sig)"
  by (simp add: RecoverSignatureFast_def split: prod.splits sum.splits)

text \<open>
  C8. On a signature whose bytes decode to \<open>sigBytes\<close>, \<open>Recover\<close> and
  \<open>RecoverSignatureFast\<close> return the error \<open>SignatureMustBe65Bytes\<close> when the length
  is not 65; otherwise they subtract 27 from a last byte \<open>v \<ge> 27\<close>, hand the bytes to
  the recovery primitive and return what it returns (first and second part). They
  make no test of \<open>v\<close>: whether a \<open>v\<close> outside \<open>{0, 1, 27, 28}\<close> is an error is left
  to the primitive, and the primitive takes the recovery ids 2 and 3 as well. With
  the stand-in primitive, which takes the ids 0 to 3, \<open>Recover\<close> returns an address
  for \<open>v = 29\<close> (the value of the test \<open>invalid V value\<close>, which expects an error)
  and \<open>RecoverSignatureFast\<close> for \<open>v = 3\<close>. The last three parts are \<open>v = 27\<close>, which
  is accepted only because 27 is subtracted, \<open>v = 31\<close>, which the primitive refuses,
  and a signature of 64 bytes.
\<close>

theorem Recover_v_unchecked:
  "Recover L C (sig\<lparr>Bytes := hexutilEncode sigBytes\<rparr>) domain types primaryType message =
     (case TypedDataAndHash C
             (TypedData (withDomainType (convertTypes types) (buildDomainTypesStatic domain))
                primaryType (domainToAPITypesStatic L domain) message) of
        None \<Rightarrow> Inl HashTypedDataFailed
      | Some hash \<Rightarrow>
          if length sigBytes = 65
          then (case SigToPub C hash
                       (sigBytes[64 := (if 27 \<le> sigBytes ! 64 then sigBytes ! 64 - 27
                                        else sigBytes ! 64)]) of
                  None \<Rightarrow> Inl RecoverPublicKeyFailed
                | Some pubKey \<Rightarrow> Inr (PubkeyToAddress C pubKey))
          else Inl SignatureMustBe65Bytes)
   \<and> fst (RecoverSignatureFast L C (sig\<lparr>Bytes := hexutilEncode sigBytes\<rparr>) domain types
            primaryType message c) =
     (case fst (Hash L (NewFastTypedDataEncoder domain types primaryType message) c) of
        Inl err \<Rightarrow> Inl (HashTypedDataFastFailed err)
      | Inr hash \<Rightarrow>
          if length sigBytes = 65
          then (case SigToPub C hash
                       (sigBytes[64 := (if 27 \<le> sigBytes ! 64 then sigBytes ! 64 - 27
                                        else sigBytes ! 64)]) of
                  None \<Rightarrow> Inl RecoverPublicKeyFailed
                | Some pubKey \<Rightarrow> Inr (PubkeyToAddress C pubKey))
          else Inl SignatureMustBe65Bytes)
   \<and> Recover demoLib demoCrypto
       \<lparr>R = [], S = [], V = 29, Hash = [], Bytes = hexutilEncode (replicate 64 7 @ [29])\<rparr>
       demoDomain [(''Empty'', [])] ''Empty'' [] = Inr 8
   \<and> fst (RecoverSignatureFast demoLib demoCrypto
            \<lparr>R = [], S = [], V = 3, Hash = [], Bytes = hexutilEncode (replicate 64 7 @ [3])\<rparr>
            demoDomain [(''Empty'', [])] ''Empty'' [] globalEncoderCache) = Inr 8
   \<and> Recover demoLib demoCrypto
       \<lparr>R = [], S = [], V = 27, Hash = [], Bytes = hexutilEncode (replicate 64 7 @ [27])\<rparr>
       demoDomain [(''Empty'', [])] ''Empty'' [] = Inr 8
   \<and> Recover demoLib demoCrypto
       \<lparr>R = [], S = [], V = 31, Hash = [], Bytes = hexutilEncode (replicate 64 7 @ [31])\<rparr>
       demoDomain [(''Empty'', [])] ''Empty'' [] = Inl RecoverPublicKeyFailed
   \<and> Recover demoLib demoCrypto
       \<lparr>R = [], S = [], V = 27, Hash = [], Bytes = hexutilEncode (replicate 63 7 @ [27])\<rparr>
       demoDomain [(''Empty'', [])] ''Empty'' [] = Inl SignatureMustBe65Bytes"
proof -
  have tail: "recoverAddress demoCrypto hash
                \<lparr>R = [], S = [], V = v, Hash = [], Bytes = hexutilEncode (replicate 64 7 @ [w])\<rparr>
              = (if (if 27 \<le> w then w - 27 else w) < 4 then Inr 8 else Inl RecoverPublicKeyFailed)"
    for hash v w
    using recoverAddress_decoded[where C = demoCrypto and hash = hash
        and sig = "\<lparr>R = [], S = [], V = v, Hash = [], Bytes = []\<rparr>"
        and sigBytes = "replicate 64 7 @ [w]"]
    by (simp add: demoCrypto_def nth_append)
  have short: "recoverAddress demoCrypto hash
                \<lparr>R = [], S = [], V = v, Hash = [], Bytes = hexutilEncode (replicate 63 7 @ [w])\<rparr>
              = Inl SignatureMustBe65Bytes"
    for hash v w
    using recoverAddress_decoded[where C = demoCrypto and hash = hash
        and sig = "\<lparr>R = [], S = [], V = v, Hash = [], Bytes = []\<rparr>"
        and sigBytes = "replicate 63 7 @ [w]"]
    by simp
  have hashed: "TypedDataAndHash demoCrypto td = Some (replicate 32 0)" for td
    by (simp add: demoCrypto_def)
  have fast: "fst (RecoverSignatureFast demoLib demoCrypto sig' demoDomain [(''Empty'', [])]
                     ''Empty'' [] globalEncoderCache)
              = recoverAddress demoCrypto
                  (Keccak256 demoLib
                     ([0x19, 0x01]
                      @ Keccak256 demoLib
                          (Keccak256 demoLib
                             (bytesOfString ''EIP712Domain(string name,string version)'')
                           @ Keccak256 demoLib (bytesOfString ''A'')
                           @ Keccak256 demoLib (bytesOfString ''1''))
                      @ Keccak256 demoLib (Keccak256 demoLib (bytesOfString ''Empty()''))))
                  sig'"
    for sig'
    by (simp add: RecoverSignatureFast_fst Hash_Empty)
  have general: "Recover L C (sig\<lparr>Bytes := hexutilEncode sigBytes\<rparr>) domain types primaryType
                   message =
     (case TypedDataAndHash C
             (TypedData (withDomainType (convertTypes types) (buildDomainTypesStatic domain))
                primaryType (domainToAPITypesStatic L domain) message) of
        None \<Rightarrow> Inl HashTypedDataFailed
      | Some hash \<Rightarrow>
          if length sigBytes = 65
          then (case SigToPub C hash
                       (sigBytes[64 := (if 27 \<le> sigBytes ! 64 then sigBytes ! 64 - 27
                                        else sigBytes ! 64)]) of
                  None \<Rightarrow> Inl RecoverPublicKeyFailed
                | Some pubKey \<Rightarrow> Inr (PubkeyToAddress C pubKey))
          else Inl SignatureMustBe65Bytes)"
    by (simp add: Recover_def recoverAddress_decoded Let_def cong: option.case_cong)
  have generalFast: "fst (RecoverSignatureFast L C (sig\<lparr>Bytes := hexutilEncode sigBytes\<rparr>)
                            domain types primaryType message c) =
     (case fst (Hash L (NewFastTypedDataEncoder domain types primaryType message) c) of
        Inl err \<Rightarrow> Inl (HashTypedDataFastFailed err)
      | Inr hash \<Rightarrow>
          if length sigBytes = 65
          then (case SigToPub C hash
                       (sigBytes[64 := (if 27 \<le> sigBytes ! 64 then sigBytes ! 64 - 27
                                        else sigBytes ! 64)]) of
                  None \<Rightarrow> Inl RecoverPublicKeyFailed
                | Some pubKey \<Rightarrow> Inr (PubkeyToAddress C pubKey))
          else Inl SignatureMustBe65Bytes)"
    by (simp add: RecoverSignatureFast_fst recoverAddress_decoded cong: sum.case_cong)
  have runs:
    "Recover demoLib demoCrypto
       \<lparr>R = [], S = [], V = 29, Hash = [], Bytes = hexutilEncode (replicate 64 7 @ [29])\<rparr>
       demoDomain [(''Empty'', [])] ''Empty'' [] = Inr 8"
    "fst (RecoverSignatureFast demoLib demoCrypto
            \<lparr>R = [], S = [], V = 3, Hash = [], Bytes = hexutilEncode (replicate 64 7 @ [3])\<rparr>
            demoDomain [(''Empty'', [])] ''Empty'' [] globalEncoderCache) = Inr 8"
    "Recover demoLib demoCrypto
       \<lparr>R = [], S = [], V = 27, Hash = [], Bytes = hexutilEncode (replicate 64 7 @ [27])\<rparr>
       demoDomain [(''Empty'', [])] ''Empty'' [] = Inr 8"
    "Recover demoLib demoCrypto
       \<lparr>R = [], S = [], V = 31, Hash = [], Bytes = hexutilEncode (replicate 64 7 @ [31])\<rparr>
       demoDomain [(''Empty'', [])] ''Empty'' [] = Inl RecoverPublicKeyFailed"
    "Recover demoLib demoCrypto
       \<lparr>R = [], S = [], V = 27, Hash = [], Bytes = hexutilEncode (replicate 63 7 @ [27])\<rparr>
       demoDomain [(''Empty'', [])] ''Empty'' [] = Inl SignatureMustBe65Bytes"
    by (simp_all add: Recover_def Let_def hashed tail short fast)
  show ?thesis
    by (intro conjI) (rule general generalFast runs)+
qed

subsection \<open>What the cycle check reports\<close>

lemma baseRefs_source: "(a, b) \<in> (baseRefs types)\<^sup>+ \<Longrightarrow> map_of types a \<noteq> None"
  by (auto simp: baseRefs_def dest!: tranclD)

lemma checkCycle_ok:
  "checkCycle typeName types st = (None, st') \<Longrightarrow>
     snd st' = snd st \<and> (\<forall>k. fst st k \<longrightarrow> fst st' k) \<and> fst st' typeName"
  "checkCycleFields flds types st = (None, st') \<Longrightarrow>
     snd st' = snd st \<and> (\<forall>k. fst st k \<longrightarrow> fst st' k)"
proof (induction typeName types st and flds types st arbitrary: st' and st'
       rule: checkCycle_checkCycleFields.induct)
  case (1 typeName types visited inPath)
  show ?case
  proof (cases "inPath typeName \<or> visited typeName")
    case True
    then show ?thesis using 1(2) by (auto split: if_splits)
  next
    case False
    show ?thesis
    proof (cases "map_of types typeName")
      case None
      then show ?thesis using 1(2) False by auto
    next
      case (Some flds)
      obtain v1 p1 where loop: "checkCycleFields flds types
          (visited(typeName := True), inPath(typeName := True)) = (None, v1, p1)"
        and st': "st' = (v1, p1(typeName := False))"
        using 1(2) False Some by (auto split: prod.splits option.splits)
      have nin: "\<not> inPath typeName" "\<not> visited typeName"
        using False by auto
      have ih: "snd (v1, p1) = snd (visited(typeName := True), inPath(typeName := True))
                \<and> (\<forall>k. fst (visited(typeName := True), inPath(typeName := True)) k
                       \<longrightarrow> fst (v1, p1) k)"
        by (rule 1(1)[OF nin Some loop])
      then have p1: "p1 = inPath(typeName := True)"
        and v1: "\<And>k. (visited(typeName := True)) k \<Longrightarrow> v1 k"
        by auto
      have "p1(typeName := False) = inPath"
        unfolding p1 using nin(1) by (simp add: fun_upd_idem)
      moreover have "v1 typeName" by (rule v1) simp
      moreover have "\<forall>k. visited k \<longrightarrow> v1 k" using v1 by simp
      ultimately show ?thesis using st' by simp
    qed
  qed
next
  case (2 types st)
  then show ?case by simp
next
  case (3 field rest types st)
  show ?case
  proof (cases "map_of types (trimSuffix (Type field) ''[]'') \<noteq> None")
    case True
    obtain st1 where first: "checkCycle (trimSuffix (Type field) ''[]'') types st = (None, st1)"
      and rest: "checkCycleFields rest types st1 = (None, st')"
      using 3(4) True by (auto split: prod.splits option.splits)
    show ?thesis
      using 3(1)[OF True first] 3(2)[OF True _ _ rest] first by auto
  next
    case False
    then show ?thesis using 3(3)[OF False] 3(4) by auto
  qed
qed

lemma checkCycle_error_cycle:
  "checkCycle typeName types st = (Some err, st') \<Longrightarrow>
     (\<And>g. snd st g \<Longrightarrow> (g, typeName) \<in> (baseRefs types)\<^sup>+) \<Longrightarrow>
     \<exists>x. (x, x) \<in> (baseRefs types)\<^sup>+"
  "checkCycleFields flds types st = (Some err, st') \<Longrightarrow>
     (\<And>g field. snd st g \<Longrightarrow> field \<in> set flds \<Longrightarrow>
        map_of types (trimSuffix (Type field) ''[]'') \<noteq> None \<Longrightarrow>
        (g, trimSuffix (Type field) ''[]'') \<in> (baseRefs types)\<^sup>+) \<Longrightarrow>
     \<exists>x. (x, x) \<in> (baseRefs types)\<^sup>+"
proof (induction typeName types st and flds types st arbitrary: st' and st'
       rule: checkCycle_checkCycleFields.induct)
  case (1 typeName types visited inPath)
  show ?case
  proof (cases "inPath typeName")
    case True
    then show ?thesis using 1(3)[of typeName] by auto
  next
    case notInPath: False
    then have notVisited: "\<not> visited typeName"
      using 1(2) by (auto split: if_splits)
    obtain flds where some: "map_of types typeName = Some flds"
      using 1(2) notInPath notVisited by (cases "map_of types typeName") auto
    obtain st1 where loop: "checkCycleFields flds types
        (visited(typeName := True), inPath(typeName := True)) = (Some err, st1)"
      using 1(2) notInPath notVisited some by (auto split: prod.splits option.splits)
    show ?thesis
    proof (rule 1(1)[OF notInPath notVisited some loop])
      fix g field
      assume g: "snd (visited(typeName := True), inPath(typeName := True)) g"
        and field: "field \<in> set flds"
        and key: "map_of types (trimSuffix (Type field) ''[]'') \<noteq> None"
      have edge: "(typeName, trimSuffix (Type field) ''[]'') \<in> baseRefs types"
        using some field key by (auto simp: baseRefs_def)
      show "(g, trimSuffix (Type field) ''[]'') \<in> (baseRefs types)\<^sup>+"
      proof (cases "g = typeName")
        case True
        then show ?thesis using edge by auto
      next
        case False
        then have "inPath g" using g by simp
        then have "(g, typeName) \<in> (baseRefs types)\<^sup>+" using 1(3) by simp
        then show ?thesis using edge by (rule trancl.trancl_into_trancl)
      qed
    qed
  qed
next
  case (2 types st)
  then show ?case by simp
next
  case (3 field rest types st)
  show ?case
  proof (cases "map_of types (trimSuffix (Type field) ''[]'') \<noteq> None")
    case True
    obtain r st1 where first: "checkCycle (trimSuffix (Type field) ''[]'') types st = (r, st1)"
      by (cases "checkCycle (trimSuffix (Type field) ''[]'') types st") auto
    show ?thesis
    proof (cases r)
      case None
      then have rest: "checkCycleFields rest types st1 = (Some err, st')"
        using 3(4) True first by simp
      have same: "snd st1 = snd st"
        using checkCycle_ok(1) first None by blast
      show ?thesis
        using 3(2)[OF True _ _ rest] first None 3(5) same by auto
    next
      case (Some err1)
      then have "err1 = err" "st1 = st'"
        using 3(4) True first by simp_all
      then show ?thesis
        using 3(1)[OF True] first Some 3(5)[of _ field] True by auto
    qed
  next
    case False
    then show ?thesis using 3(3)[OF False] 3(4) 3(5) by auto
  qed
qed

lemma settled_reach:
  assumes "settled types st" and "(b, c) \<in> (baseRefs types)\<^sup>*" and "b \<in> finished st"
  shows "c \<in> finished st"
  using assms(2,3)
proof (induction rule: rtrancl_induct)
  case base
  then show ?case by simp
next
  case (step y z)
  then show ?case using assms(1) by (auto simp: settled_def)
qed

lemma settled_finish:
  assumes inv: "settled types (v, p)" and grey: "p typeName" and seen: "v typeName"
    and succs: "\<And>c. (typeName, c) \<in> baseRefs types \<Longrightarrow> c \<in> finished (v, p)"
  shows "settled types (v, p(typeName := False))"
    and "typeName \<in> finished (v, p(typeName := False))"
proof -
  have fin: "finished (v, p(typeName := False)) = insert typeName (finished (v, p))"
    using seen by (auto simp: finished_def)
  have notfin: "typeName \<notin> finished (v, p)"
    using grey by (simp add: finished_def)
  have acyc: "(typeName, typeName) \<notin> (baseRefs types)\<^sup>+"
  proof
    assume "(typeName, typeName) \<in> (baseRefs types)\<^sup>+"
    then obtain c where "(typeName, c) \<in> baseRefs types" "(c, typeName) \<in> (baseRefs types)\<^sup>*"
      by (auto dest: tranclD)
    then have "typeName \<in> finished (v, p)"
      using settled_reach[OF inv] succs by blast
    then show False using notfin by simp
  qed
  show "settled types (v, p(typeName := False))"
    unfolding settled_def fin using inv acyc succs by (auto simp: settled_def)
  show "typeName \<in> finished (v, p(typeName := False))"
    unfolding fin by simp
qed

lemma checkCycle_settles:
  "checkCycle typeName types st = (None, st') \<Longrightarrow> settled types st \<Longrightarrow>
     settled types st' \<and> typeName \<in> finished st'"
  "checkCycleFields flds types st = (None, st') \<Longrightarrow> settled types st \<Longrightarrow>
     settled types st'
     \<and> (\<forall>field \<in> set flds. map_of types (trimSuffix (Type field) ''[]'') \<noteq> None
            \<longrightarrow> trimSuffix (Type field) ''[]'' \<in> finished st')"
proof (induction typeName types st and flds types st arbitrary: st' and st'
       rule: checkCycle_checkCycleFields.induct)
  case (1 typeName types visited inPath)
  have notInPath: "\<not> inPath typeName"
    using 1(2) by (auto split: if_splits)
  show ?case
  proof (cases "visited typeName")
    case True
    then show ?thesis using 1(2,3) notInPath by (auto simp: finished_def)
  next
    case notVisited: False
    have start: "settled types (visited(typeName := True), inPath(typeName := True))"
    proof -
      have "finished (visited(typeName := True), inPath(typeName := True))
            = finished (visited, inPath)"
        using notVisited by (auto simp: finished_def)
      then show ?thesis using 1(3) by (simp add: settled_def)
    qed
    show ?thesis
    proof (cases "map_of types typeName")
      case None
      have st': "st' = (visited(typeName := True), (inPath(typeName := True))(typeName := False))"
        using 1(2) notInPath notVisited None by simp
      have succs: "\<And>c. (typeName, c) \<in> baseRefs types \<Longrightarrow>
              c \<in> finished (visited(typeName := True), inPath(typeName := True))"
        using None by (auto simp: baseRefs_def)
      have grey: "(inPath(typeName := True)) typeName"
        and seen: "(visited(typeName := True)) typeName"
        by simp_all
      show ?thesis
        unfolding st'
        using settled_finish[of types "visited(typeName := True)" "inPath(typeName := True)"
            typeName, OF start grey seen succs]
        by simp
    next
      case (Some flds)
      obtain v1 p1 where loop: "checkCycleFields flds types
          (visited(typeName := True), inPath(typeName := True)) = (None, v1, p1)"
        and st': "st' = (v1, p1(typeName := False))"
        using 1(2) notInPath notVisited Some by (auto split: prod.splits option.splits)
      have ih: "settled types (v1, p1)
          \<and> (\<forall>field \<in> set flds. map_of types (trimSuffix (Type field) ''[]'') \<noteq> None
                 \<longrightarrow> trimSuffix (Type field) ''[]'' \<in> finished (v1, p1))"
        by (rule 1(1)[OF notInPath notVisited Some loop start])
      have "snd (v1, p1) = snd (visited(typeName := True), inPath(typeName := True))
            \<and> (\<forall>k. fst (visited(typeName := True), inPath(typeName := True)) k
                   \<longrightarrow> fst (v1, p1) k)"
        by (rule checkCycle_ok(2)[OF loop])
      then have grey: "p1 typeName" and seen: "v1 typeName"
        by auto
      have succs: "\<And>c. (typeName, c) \<in> baseRefs types \<Longrightarrow> c \<in> finished (v1, p1)"
        using ih Some by (auto simp: baseRefs_def)
      have inv1: "settled types (v1, p1)" using ih by simp
      show ?thesis
        unfolding st'
        using settled_finish[of types v1 p1 typeName, OF inv1 grey seen succs] by simp
    qed
  qed
next
  case (2 types st)
  then show ?case by simp
next
  case (3 field rest types st)
  show ?case
  proof (cases "map_of types (trimSuffix (Type field) ''[]'') \<noteq> None")
    case True
    obtain st1 where first: "checkCycle (trimSuffix (Type field) ''[]'') types st = (None, st1)"
      and rest: "checkCycleFields rest types st1 = (None, st')"
      using 3(4) True by (auto split: prod.splits option.splits)
    have one: "settled types st1 \<and> trimSuffix (Type field) ''[]'' \<in> finished st1"
      by (rule 3(1)[OF True first 3(5)])
    have two: "settled types st'
        \<and> (\<forall>field \<in> set rest. map_of types (trimSuffix (Type field) ''[]'') \<noteq> None
               \<longrightarrow> trimSuffix (Type field) ''[]'' \<in> finished st')"
      using 3(2)[OF True _ _ rest] first one by simp
    have "finished st1 \<subseteq> finished st'"
      using checkCycle_ok(2)[OF rest] by (auto simp: finished_def)
    then show ?thesis using one two by auto
  next
    case False
    then show ?thesis using 3(3)[OF False] 3(4) 3(5) by auto
  qed
qed

lemma validateNoCyclesLoop_error:
  "validateNoCyclesLoop keys types st = Some err \<Longrightarrow> (\<And>g. \<not> snd st g) \<Longrightarrow>
     \<exists>x. (x, x) \<in> (baseRefs types)\<^sup>+"
proof (induction keys arbitrary: st)
  case Nil
  then show ?case by simp
next
  case (Cons typeName rest)
  obtain r st1 where first: "checkCycle typeName types st = (r, st1)"
    by (cases "checkCycle typeName types st") auto
  show ?case
  proof (cases r)
    case None
    then have "snd st1 = snd st"
      using checkCycle_ok(1) first by blast
    then show ?thesis
      using Cons first None by auto
  next
    case (Some err1)
    show ?thesis
      using checkCycle_error_cycle(1)[of typeName types st err1 st1] first Some Cons(3)
      by auto
  qed
qed

lemma validateNoCyclesLoop_ok:
  "validateNoCyclesLoop keys types st = None \<Longrightarrow> settled types st \<Longrightarrow>
     \<exists>st'. settled types st' \<and> finished st \<subseteq> finished st' \<and> set keys \<subseteq> finished st'"
proof (induction keys arbitrary: st)
  case Nil
  then have "settled types st \<and> finished st \<subseteq> finished st \<and> set [] \<subseteq> finished st"
    by simp
  then show ?case by blast
next
  case (Cons typeName rest)
  obtain st1 where first: "checkCycle typeName types st = (None, st1)"
    and rest: "validateNoCyclesLoop rest types st1 = None"
    using Cons(2) by (auto split: prod.splits option.splits)
  have one: "settled types st1 \<and> typeName \<in> finished st1"
    by (rule checkCycle_settles(1)[OF first Cons(3)])
  have mono: "finished st \<subseteq> finished st1"
    using checkCycle_ok(1)[OF first] by (auto simp: finished_def)
  obtain st' where "settled types st'" "finished st1 \<subseteq> finished st'"
    "set rest \<subseteq> finished st'"
    using Cons(1)[OF rest] one by blast
  then have "settled types st' \<and> finished st \<subseteq> finished st'
             \<and> set (typeName # rest) \<subseteq> finished st'"
    using one mono by auto
  then show ?case by blast
qed

lemma validateNoCycles_acyclic:
  "validateNoCycles types = None \<longleftrightarrow> acyclic (baseRefs types)"
proof
  assume ok: "validateNoCycles types = None"
  have "settled types (\<lambda>k. False, \<lambda>k. False)"
    by (simp add: settled_def finished_def)
  then obtain st' where inv: "settled types st'" and keys: "set (map fst types) \<subseteq> finished st'"
    using validateNoCyclesLoop_ok[of "map fst types" types] ok
    unfolding validateNoCycles_def by blast
  show "acyclic (baseRefs types)"
    unfolding acyclic_def
  proof (intro allI notI)
    fix x
    assume cyc: "(x, x) \<in> (baseRefs types)\<^sup>+"
    then have "map_of types x \<noteq> None" by (rule baseRefs_source)
    then have "x \<in> set (map fst types)"
      by (auto dest: map_of_SomeD intro: rev_image_eqI)
    then have "x \<in> finished st'" using keys by auto
    then show False using inv cyc by (auto simp: settled_def)
  qed
next
  assume acyc: "acyclic (baseRefs types)"
  show "validateNoCycles types = None"
  proof (cases "validateNoCycles types")
    case None
    then show ?thesis .
  next
    case (Some err)
    then have "\<exists>x. (x, x) \<in> (baseRefs types)\<^sup>+"
      using validateNoCyclesLoop_error[of "map fst types" types "(\<lambda>k. False, \<lambda>k. False)" err]
      by (simp add: validateNoCycles_def)
    then show ?thesis using acyc by (auto simp: acyclic_def)
  qed
qed

text \<open>
  C2. The cycle check strips one trailing \<open>[]\<close> from a field type and nothing else:
  it passes exactly the schemas that have no cycle of such references
  (\<open>validateNoCycles_acyclic\<close>). A self-reference through \<open>Node[]\<close> is reported, but
  the same self-reference through a fixed-size array \<open>Node[2]\<close> or a nested array
  \<open>Node[][]\<close> passes the check.
\<close>

theorem validateNoCycles_array_suffixes:
  "validateNoCycles
     [(''Node'', [\<lparr>Type.Name = ''children'', Type = ''Node[]''\<rparr>,
                  \<lparr>Type.Name = ''value'', Type = ''uint256''\<rparr>])]
     = Some (CyclicReference ''Node'')
   \<and> validateNoCycles
     [(''Node'', [\<lparr>Type.Name = ''children'', Type = ''Node[2]''\<rparr>,
                  \<lparr>Type.Name = ''value'', Type = ''uint256''\<rparr>])] = None
   \<and> validateNoCycles
     [(''Node'', [\<lparr>Type.Name = ''children'', Type = ''Node[][]''\<rparr>,
                  \<lparr>Type.Name = ''value'', Type = ''uint256''\<rparr>])] = None"
  by (simp add: validateNoCycles_def trimSuffix_def hasSuffix_def)

subsection \<open>Dependencies and the type string\<close>

lemma fieldTargets_Nil: "fieldTargets types [] = {}"
  by (simp add: fieldTargets_def)

lemma fieldTargets_Cons:
  "fieldTargets types (field # rest) =
     (if map_of types (trimSuffix (Type field) ''[]'') \<noteq> None
      then insert (trimSuffix (Type field) ''[]'') (fieldTargets types rest)
      else fieldTargets types rest)"
  by (auto simp: fieldTargets_def)

lemma baseRefs_fieldTargets:
  "map_of types a = Some flds \<Longrightarrow> baseRefs types `` {a} = fieldTargets types flds"
  by (auto simp: baseRefs_def fieldTargets_def)

lemma baseRefs_no_key: "map_of types a = None \<Longrightarrow> baseRefs types `` {a} = {}"
  by (auto simp: baseRefs_def)

lemma findDependencies_reachable:
  "set (findDependencies e typeName deps)
     \<subseteq> set deps \<union> (baseRefs (Types e))\<^sup>* `` {typeName}"
  "set (findDependenciesFields e flds deps)
     \<subseteq> set deps \<union> (baseRefs (Types e))\<^sup>* `` fieldTargets (Types e) flds"
proof (induction e typeName deps and e flds deps
       rule: findDependencies_findDependenciesFields.induct)
  case (1 e typeName deps)
  show ?case
  proof (cases "typeName \<in> set deps")
    case True
    then show ?thesis by (simp add: findDependencies.simps)
  next
    case False
    show ?thesis
    proof (cases "map_of (Types e) typeName")
      case None
      then show ?thesis using False by (simp add: findDependencies.simps)
    next
      case (Some flds)
      have eq: "findDependencies e typeName deps
                = findDependenciesFields e flds (typeName # deps)"
        using False Some by (simp add: findDependencies.simps)
      have "fieldTargets (Types e) flds \<subseteq> baseRefs (Types e) `` {typeName}"
        using baseRefs_fieldTargets[OF Some] by simp
      then have step: "(baseRefs (Types e))\<^sup>* `` fieldTargets (Types e) flds
                  \<subseteq> (baseRefs (Types e))\<^sup>* `` {typeName}"
        by (auto intro: converse_rtrancl_into_rtrancl)
      have "set (findDependenciesFields e flds (typeName # deps))
            \<subseteq> set (typeName # deps)
              \<union> (baseRefs (Types e))\<^sup>* `` fieldTargets (Types e) flds"
        by (rule 1[OF False Some])
      then show ?thesis unfolding eq using step by auto
    qed
  qed
next
  case (2 e deps)
  then show ?case by (simp add: findDependenciesFields.simps)
next
  case (3 e field rest deps)
  let ?b = "trimSuffix (Type field) ''[]''"
  show ?case
  proof (cases "map_of (Types e) ?b \<noteq> None")
    case True
    have eq: "findDependenciesFields e (field # rest) deps
              = findDependenciesFields e rest (findDependencies e ?b deps)"
      using True by (simp add: findDependenciesFields.simps)
    have "set (findDependenciesFields e rest (findDependencies e ?b deps))
          \<subseteq> set (findDependencies e ?b deps)
            \<union> (baseRefs (Types e))\<^sup>* `` fieldTargets (Types e) rest"
      by (rule 3(2)[OF True])
    moreover have "set (findDependencies e ?b deps)
          \<subseteq> set deps \<union> (baseRefs (Types e))\<^sup>* `` {?b}"
      by (rule 3(1)[OF True])
    moreover have "fieldTargets (Types e) (field # rest)
                   = insert ?b (fieldTargets (Types e) rest)"
      using True by (simp add: fieldTargets_Cons)
    ultimately show ?thesis unfolding eq by blast
  next
    case False
    have eq: "findDependenciesFields e (field # rest) deps
              = findDependenciesFields e rest deps"
      using False by (simp add: findDependenciesFields.simps)
    have "fieldTargets (Types e) (field # rest) = fieldTargets (Types e) rest"
      using False by (simp add: fieldTargets_Cons)
    then show ?thesis unfolding eq using 3(3)[OF False] by simp
  qed
qed

lemma findDependencies_closed:
  "closedExcept (Types e) pending (set deps) \<Longrightarrow>
     closedExcept (Types e) pending (set (findDependencies e typeName deps))
     \<and> set deps \<subseteq> set (findDependencies e typeName deps)
     \<and> (map_of (Types e) typeName \<noteq> None \<longrightarrow> typeName \<in> set (findDependencies e typeName deps))
     \<and> (distinct deps \<longrightarrow> distinct (findDependencies e typeName deps))"
  "closedExcept (Types e) pending (set deps) \<Longrightarrow>
     closedExcept (Types e) pending (set (findDependenciesFields e flds deps))
     \<and> set deps \<subseteq> set (findDependenciesFields e flds deps)
     \<and> fieldTargets (Types e) flds \<subseteq> set (findDependenciesFields e flds deps)
     \<and> (distinct deps \<longrightarrow> distinct (findDependenciesFields e flds deps))"
proof (induction e typeName deps and e flds deps arbitrary: pending and pending
       rule: findDependencies_findDependenciesFields.induct)
  case (1 e typeName deps)
  show ?case
  proof (cases "typeName \<in> set deps")
    case True
    then show ?thesis using 1(2) by (simp add: findDependencies.simps)
  next
    case False
    show ?thesis
    proof (cases "map_of (Types e) typeName")
      case None
      then show ?thesis using False 1(2) by (simp add: findDependencies.simps)
    next
      case (Some flds)
      let ?found = "set (findDependenciesFields e flds (typeName # deps))"
      have eq: "findDependencies e typeName deps
                = findDependenciesFields e flds (typeName # deps)"
        using False Some by (simp add: findDependencies.simps)
      have "closedExcept (Types e) (insert typeName pending) (set (typeName # deps))"
        using 1(2) by (auto simp: closedExcept_def)
      then have ih: "closedExcept (Types e) (insert typeName pending) ?found
          \<and> set (typeName # deps) \<subseteq> ?found
          \<and> fieldTargets (Types e) flds \<subseteq> ?found
          \<and> (distinct (typeName # deps)
               \<longrightarrow> distinct (findDependenciesFields e flds (typeName # deps)))"
        by (rule 1(1)[OF False Some])
      have "baseRefs (Types e) `` {typeName} \<subseteq> ?found"
        using ih baseRefs_fieldTargets[OF Some] by simp
      then have "closedExcept (Types e) pending ?found"
        using ih unfolding closedExcept_def by blast
      then show ?thesis unfolding eq using ih False by auto
    qed
  qed
next
  case (2 e deps)
  then show ?case by (simp add: findDependenciesFields.simps fieldTargets_Nil)
next
  case (3 e field rest deps)
  let ?b = "trimSuffix (Type field) ''[]''"
  show ?case
  proof (cases "map_of (Types e) ?b \<noteq> None")
    case True
    let ?mid = "findDependencies e ?b deps"
    have eq: "findDependenciesFields e (field # rest) deps
              = findDependenciesFields e rest ?mid"
      using True by (simp add: findDependenciesFields.simps)
    have one: "closedExcept (Types e) pending (set ?mid)
        \<and> set deps \<subseteq> set ?mid
        \<and> (map_of (Types e) ?b \<noteq> None \<longrightarrow> ?b \<in> set ?mid)
        \<and> (distinct deps \<longrightarrow> distinct ?mid)"
      by (rule 3(1)[OF True 3(4)])
    then have inv: "closedExcept (Types e) pending (set ?mid)" by simp
    have two: "closedExcept (Types e) pending (set (findDependenciesFields e rest ?mid))
        \<and> set ?mid \<subseteq> set (findDependenciesFields e rest ?mid)
        \<and> fieldTargets (Types e) rest \<subseteq> set (findDependenciesFields e rest ?mid)
        \<and> (distinct ?mid \<longrightarrow> distinct (findDependenciesFields e rest ?mid))"
      by (rule 3(2)[OF True inv])
    have "fieldTargets (Types e) (field # rest) = insert ?b (fieldTargets (Types e) rest)"
      using True by (simp add: fieldTargets_Cons)
    then show ?thesis unfolding eq using one two True by auto
  next
    case False
    have eq: "findDependenciesFields e (field # rest) deps
              = findDependenciesFields e rest deps"
      using False by (simp add: findDependenciesFields.simps)
    have "fieldTargets (Types e) (field # rest) = fieldTargets (Types e) rest"
      using False by (simp add: fieldTargets_Cons)
    then show ?thesis unfolding eq using 3(3)[OF False 3(4)] by simp
  qed
qed

lemma findDependencies_set:
  assumes "map_of (Types e) typeName \<noteq> None"
  shows "set (findDependencies e typeName []) = (baseRefs (Types e))\<^sup>* `` {typeName}"
    and "distinct (findDependencies e typeName [])"
proof -
  let ?found = "set (findDependencies e typeName [])"
  have init: "closedExcept (Types e) {} (set [])"
    by (simp add: closedExcept_def)
  note all = findDependencies_closed(1)[of e "{}" "[]" typeName, OF init]
  have closed: "closedExcept (Types e) {} ?found" and self: "typeName \<in> ?found"
    and dist: "distinct (findDependencies e typeName [])"
    using all assms by simp_all
  have "x \<in> ?found" if "(typeName, x) \<in> (baseRefs (Types e))\<^sup>*" for x
    using that
  proof (induction rule: rtrancl_induct)
    case base
    then show ?case by (rule self)
  next
    case (step y z)
    then show ?case using closed by (auto simp: closedExcept_def)
  qed
  moreover have "?found \<subseteq> (baseRefs (Types e))\<^sup>* `` {typeName}"
    using findDependencies_reachable(1)[of e typeName "[]"] by simp
  ultimately show "?found = (baseRefs (Types e))\<^sup>* `` {typeName}" by auto
  show "distinct (findDependencies e typeName [])" by (rule dist)
qed

lemma dependenciesOf_miss:
  assumes "dependencies c typeName = None" and "map_of (Types e) typeName \<noteq> None"
  shows "filter (\<lambda>dep. dep \<noteq> typeName) (fst (dependenciesOf e typeName c))
         = sorted_list_of_set ((baseRefs (Types e))\<^sup>* `` {typeName} - {typeName})"
proof -
  let ?found = "findDependencies e typeName []"
  have "filter (\<lambda>dep. dep \<noteq> typeName) (sort ?found)
        = sort (filter (\<lambda>dep. dep \<noteq> typeName) ?found)"
    by (rule filter_sort)
  also have "\<dots> = sorted_list_of_set (set (filter (\<lambda>dep. dep \<noteq> typeName) ?found))"
  proof -
    have "distinct (filter (\<lambda>dep. dep \<noteq> typeName) ?found)"
      using findDependencies_set(2)[OF assms(2)] by simp
    then show ?thesis
      by (simp only: sorted_list_of_set_sort_remdups distinct_remdups_id)
  qed
  also have "set (filter (\<lambda>dep. dep \<noteq> typeName) ?found)
             = (baseRefs (Types e))\<^sup>* `` {typeName} - {typeName}"
    using findDependencies_set(1)[OF assms(2)] by auto
  finally show ?thesis
    using assms(1) by (simp add: dependenciesOf_def Let_def)
qed

lemma encodeType_miss:
  assumes "encodedTypes c typeName = None" and "dependencies c typeName = None"
    and "map_of (Types e) typeName = Some flds"
  shows "fst (encodeType e typeName c) =
           Inr (typeName @ ''('' @ encodeFields flds @ '')''
                @ concat (map (\<lambda>dep. dep @ ''(''
                                  @ encodeFields (case map_of (Types e) dep of
                                                    None \<Rightarrow> [] | Some fs \<Rightarrow> fs)
                                  @ '')'')
                            (sorted_list_of_set
                               ((baseRefs (Types e))\<^sup>* `` {typeName} - {typeName}))))"
proof -
  have key: "map_of (Types e) typeName \<noteq> None" using assms(3) by simp
  obtain deps c1 where d: "dependenciesOf e typeName c = (deps, c1)"
    by (cases "dependenciesOf e typeName c") auto
  have "filter (\<lambda>dep. dep \<noteq> typeName) deps
        = sorted_list_of_set ((baseRefs (Types e))\<^sup>* `` {typeName} - {typeName})"
    using dependenciesOf_miss[OF assms(2) key, of ] d by simp
  then show ?thesis
    using assms(1,3) d by (simp add: encodeType_def Let_def)
qed

text \<open>
  C3. When the cache has nothing under the type's name, the type string is the
  primary type's declaration followed by the declarations of the other types it
  reaches, in byte order (\<open>encodeType_miss\<close>; first part, from the empty cache). But
  the cache is keyed by the type name alone: once
  \<open>Data(string[] items,uint256[] values)\<close> has been encoded, the schema in which
  \<open>Data\<close> has the single field \<open>items\<close> gets the stored string of the other schema
  (second part). And a type referenced through a nested array, \<open>B[][]\<close>, is not found
  as a dependency (third part).
\<close>

theorem encodeType_cache_and_arrays:
  "fst (encodeType
          (NewFastTypedDataEncoder demoDomain
             [(''Person'', [\<lparr>Type.Name = ''name'', Type = ''string''\<rparr>,
                            \<lparr>Type.Name = ''wallet'', Type = ''address''\<rparr>]),
              (''Mail'', [\<lparr>Type.Name = ''from'', Type = ''Person''\<rparr>,
                          \<lparr>Type.Name = ''to'', Type = ''Person''\<rparr>,
                          \<lparr>Type.Name = ''contents'', Type = ''string''\<rparr>])] ''Mail'' [])
          ''Mail'' globalEncoderCache)
     = Inr ''Mail(Person from,Person to,string contents)Person(string name,address wallet)''
   \<and> fst (encodeType
          (NewFastTypedDataEncoder demoDomain
             [(''Data'', [\<lparr>Type.Name = ''items'', Type = ''string[]''\<rparr>])] ''Data'' [])
          ''Data''
          (snd (encodeType
                  (NewFastTypedDataEncoder demoDomain
                     [(''Data'', [\<lparr>Type.Name = ''items'', Type = ''string[]''\<rparr>,
                                  \<lparr>Type.Name = ''values'', Type = ''uint256[]''\<rparr>])] ''Data'' [])
                  ''Data'' globalEncoderCache)))
     = Inr ''Data(string[] items,uint256[] values)''
   \<and> fst (encodeType
          (NewFastTypedDataEncoder demoDomain
             [(''A'', [\<lparr>Type.Name = ''x'', Type = ''B[][]''\<rparr>]),
              (''B'', [\<lparr>Type.Name = ''y'', Type = ''uint256''\<rparr>])] ''A'' [])
          ''A'' globalEncoderCache)
     = Inr ''A(B[][] x)''"
  by (simp add: dependency_simps encodeType_def dependenciesOf_def encodeFields_def globalEncoderCache_def
      NewFastTypedDataEncoder_def hasSuffix_def trimSuffix_def Let_def)

subsection \<open>The digest\<close>

lemma hashStruct_is_digest:
  "hashStruct L e primaryType data c = (Inr h, c') \<Longrightarrow> \<exists>encoded. h = Keccak256 L encoded"
  by (auto simp: hashStruct.simps split: prod.splits sum.splits)

lemma Hash_composition:
  assumes keccak32: "\<And>b. length (Keccak256 L b) = 32"
    and ok: "fst (Hash L e c) = Inr digest"
  shows "\<exists>domainSeparator messageHash c1 c2.
           hashStruct L (fst (snd (Hash L e c))) ''EIP712Domain''
               (domainToMap L e) c = (Inr domainSeparator, c1)
           \<and> hashStruct L (fst (snd (Hash L e c))) (PrimaryType e) (Message e) c1
               = (Inr messageHash, c2)
           \<and> digest = Keccak256 L ([0x19, 0x01] @ domainSeparator @ messageHash)
           \<and> length ([0x19, 0x01] @ domainSeparator @ messageHash) = 66
           \<and> length digest = 32"
proof -
  define e' where "e' = (if map_of (Types e) ''EIP712Domain'' = None
                         then e\<lparr>Types := Types e @ [(''EIP712Domain'', buildDomainTypes e)]\<rparr>
                         else e)"
  have same: "domainToMap L e' = domainToMap L e" "PrimaryType e' = PrimaryType e"
    "Message e' = Message e"
    by (auto simp: e'_def domainToMap_def Let_def split: option.splits)
  have valid: "validate e = None"
    using ok by (cases "validate e") (simp_all add: Hash_def)
  obtain r1 c1 where h1: "hashStruct L e' ''EIP712Domain'' (domainToMap L e) c = (r1, c1)"
    by (cases "hashStruct L e' ''EIP712Domain'' (domainToMap L e) c") auto
  obtain r2 c2 where h2: "hashStruct L e' (PrimaryType e) (Message e) c1 = (r2, c2)"
    by (cases "hashStruct L e' (PrimaryType e) (Message e) c1") auto
  have unfolded: "Hash L e c =
      (case r1 of
         Inl err \<Rightarrow> (Inl (HashDomainFailed err), e', c1)
       | Inr domainSeparator \<Rightarrow>
           (case r2 of
              Inl err \<Rightarrow> (Inl (HashMessageFailed err), e', c2)
            | Inr messageHash \<Rightarrow>
                (Inr (Keccak256 L ([0x19, 0x01] @ domainSeparator @ messageHash)), e', c2)))"
    using valid h1 h2 same
    by (auto simp: Hash_def Let_def e'_def[symmetric] split: sum.splits)
  obtain domainSeparator where r1: "r1 = Inr domainSeparator"
    using ok unfolded by (cases r1) auto
  obtain messageHash where r2: "r2 = Inr messageHash"
    using ok unfolded r1 by (cases r2) auto
  have after: "fst (snd (Hash L e c)) = e'"
    and dg: "digest = Keccak256 L ([0x19, 0x01] @ domainSeparator @ messageHash)"
    using ok unfolded r1 r2 by auto
  have "length domainSeparator = 32" "length messageHash = 32"
    using hashStruct_is_digest h1 h2 r1 r2 keccak32 by blast+
  then show ?thesis
    using h1 h2 r1 r2 dg after keccak32 by auto
qed

lemma bigIntString_digits:
  "bigIntString 0 = ''0''" "bigIntString 1 = ''1''" "bigIntString 2 = ''2''"
  by code_simp+

lemma Hash_Data_fresh:
  "fst (Hash L
          (NewFastTypedDataEncoder demoDomain
             [(''Data'', [\<lparr>Type.Name = ''items'', Type = ''string[]''\<rparr>])] ''Data''
             [(''items'', VSlice [VString ''item''])])
          globalEncoderCache)
     = Inr (Keccak256 L
              ([0x19, 0x01]
               @ Keccak256 L
                   (Keccak256 L (bytesOfString ''EIP712Domain(string name,string version)'')
                    @ Keccak256 L (bytesOfString ''A'') @ Keccak256 L (bytesOfString ''1''))
               @ Keccak256 L
                   (Keccak256 L (bytesOfString ''Data(string[] items)'')
                    @ Keccak256 L (Keccak256 L (bytesOfString ''item'')))))"
  by (simp add: encode_simps dependency_simps Hash_def validate_def validateNoCycles_def
      buildDomainTypes_def domainToMap_def typeHash_def encodeType_def dependenciesOf_def
      encodeFields_def globalEncoderCache_def NewFastTypedDataEncoder_def demoDomain_def
      sliceElems_def stringElem_def hasSuffix_def trimSuffix_def
      encodePrimitive_def toString_def Let_def)

lemma Hash_Data_stale:
  "fst (Hash L
          (NewFastTypedDataEncoder demoDomain
             [(''Data'', [\<lparr>Type.Name = ''items'', Type = ''string[]''\<rparr>])] ''Data''
             [(''items'', VSlice [VString ''item''])])
          (snd (snd (Hash L
             (NewFastTypedDataEncoder demoDomain
                [(''Data'', [\<lparr>Type.Name = ''items'', Type = ''string[]''\<rparr>,
                             \<lparr>Type.Name = ''values'', Type = ''uint256[]''\<rparr>])] ''Data''
                [(''items'', VSlice [VString ''a'']), (''values'', VSlice [VString ''1''])])
             globalEncoderCache))))
     = Inr (Keccak256 L
              ([0x19, 0x01]
               @ Keccak256 L
                   (Keccak256 L (bytesOfString ''EIP712Domain(string name,string version)'')
                    @ Keccak256 L (bytesOfString ''A'') @ Keccak256 L (bytesOfString ''1''))
               @ Keccak256 L
                   (Keccak256 L (bytesOfString ''Data(string[] items,uint256[] values)'')
                    @ Keccak256 L (Keccak256 L (bytesOfString ''item'')))))"
  by (simp add: encode_simps dependency_simps Hash_def validate_def validateNoCycles_def
      buildDomainTypes_def domainToMap_def typeHash_def encodeType_def dependenciesOf_def
      encodeFields_def globalEncoderCache_def NewFastTypedDataEncoder_def demoDomain_def
      sliceElems_def stringElem_def hasSuffix_def hasPrefix_def trimSuffix_def
      encodePrimitive_def toString_def encodeInteger_def toBigInt_def setString_def
      digitVal_def Let_def)

lemma Hash_Data_differs:
  assumes "inj (Keccak256 L)"
  shows "fst (Hash L
          (NewFastTypedDataEncoder demoDomain
             [(''Data'', [\<lparr>Type.Name = ''items'', Type = ''string[]''\<rparr>])] ''Data''
             [(''items'', VSlice [VString ''item''])])
          (snd (snd (Hash L
             (NewFastTypedDataEncoder demoDomain
                [(''Data'', [\<lparr>Type.Name = ''items'', Type = ''string[]''\<rparr>,
                             \<lparr>Type.Name = ''values'', Type = ''uint256[]''\<rparr>])] ''Data''
                [(''items'', VSlice [VString ''a'']), (''values'', VSlice [VString ''1''])])
             globalEncoderCache))))
     \<noteq> fst (Hash L
          (NewFastTypedDataEncoder demoDomain
             [(''Data'', [\<lparr>Type.Name = ''items'', Type = ''string[]''\<rparr>])] ''Data''
             [(''items'', VSlice [VString ''item''])])
          globalEncoderCache)"
proof -
  have "length (bytesOfString ''Data(string[] items,uint256[] values)'')
        \<noteq> length (bytesOfString ''Data(string[] items)'')"
    by (simp add: bytesOfString_def)
  then have "bytesOfString ''Data(string[] items,uint256[] values)''
        \<noteq> bytesOfString ''Data(string[] items)''"
    by metis
  then show ?thesis
    unfolding Hash_Data_fresh Hash_Data_stale
    using inj_eq[OF assms] by simp
qed

text \<open>
  C4. When \<open>Hash\<close> returns a digest, it is Keccak-256 of \<open>0x19 0x01\<close>, a domain
  separator and a message hash (\<open>Hash_composition\<close>), but the two operands are not
  the struct hashes of the domain value and of the message: they depend on what
  earlier calls left in the process-wide cache and in the caller's map. First and
  second part: the same schema \<open>Data(string[] items)\<close> and message give one digest
  from the empty cache and another after a call for the schema
  \<open>Data(string[] items,uint256[] values)\<close>, whose type string is then hashed in place
  of the schema's own (the two digests differ as soon as Keccak-256 has no collision,
  \<open>Hash_Data_differs\<close>). Third and fourth part: for a domain with chain id 1 the
  separator covers \<open>chainId\<close> when the map and the cache are fresh; with the map and
  the cache as a call for a domain without chain id left them, the digest is the same
  for every chain id, and is the digest of the domain without chain id.
\<close>

theorem Hash_depends_on_state:
  "fst (Hash L
          (NewFastTypedDataEncoder demoDomain
             [(''Data'', [\<lparr>Type.Name = ''items'', Type = ''string[]''\<rparr>])] ''Data''
             [(''items'', VSlice [VString ''item''])])
          globalEncoderCache)
     = Inr (Keccak256 L
              ([0x19, 0x01]
               @ Keccak256 L
                   (Keccak256 L (bytesOfString ''EIP712Domain(string name,string version)'')
                    @ Keccak256 L (bytesOfString ''A'') @ Keccak256 L (bytesOfString ''1''))
               @ Keccak256 L
                   (Keccak256 L (bytesOfString ''Data(string[] items)'')
                    @ Keccak256 L (Keccak256 L (bytesOfString ''item'')))))
   \<and> fst (Hash L
          (NewFastTypedDataEncoder demoDomain
             [(''Data'', [\<lparr>Type.Name = ''items'', Type = ''string[]''\<rparr>])] ''Data''
             [(''items'', VSlice [VString ''item''])])
          (snd (snd (Hash L
             (NewFastTypedDataEncoder demoDomain
                [(''Data'', [\<lparr>Type.Name = ''items'', Type = ''string[]''\<rparr>,
                             \<lparr>Type.Name = ''values'', Type = ''uint256[]''\<rparr>])] ''Data''
                [(''items'', VSlice [VString ''a'']), (''values'', VSlice [VString ''1''])])
             globalEncoderCache))))
     = Inr (Keccak256 L
              ([0x19, 0x01]
               @ Keccak256 L
                   (Keccak256 L (bytesOfString ''EIP712Domain(string name,string version)'')
                    @ Keccak256 L (bytesOfString ''A'') @ Keccak256 L (bytesOfString ''1''))
               @ Keccak256 L
                   (Keccak256 L (bytesOfString ''Data(string[] items,uint256[] values)'')
                    @ Keccak256 L (Keccak256 L (bytesOfString ''item'')))))
   \<and> fst (Hash L
          (NewFastTypedDataEncoder
             \<lparr>Domain.Name = ''A'', Version = ''1'', ChainID = Some 1,
              VerifyingContract = 0, Salt = 0\<rparr>
             [(''Message'', [\<lparr>Type.Name = ''content'', Type = ''string''\<rparr>])]
             ''Message'' [(''content'', VString ''Hello, World!'')])
          globalEncoderCache)
     = Inr (Keccak256 L
              ([0x19, 0x01]
               @ Keccak256 L
                   (Keccak256 L (bytesOfString
                                   ''EIP712Domain(string name,string version,uint256 chainId)'')
                    @ Keccak256 L (bytesOfString ''A'') @ Keccak256 L (bytesOfString ''1'')
                    @ replicate 31 0 @ [1])
               @ Keccak256 L
                   (Keccak256 L (bytesOfString ''Message(string content)'')
                    @ Keccak256 L (bytesOfString ''Hello, World!''))))
   \<and> fst (Hash L
          (NewFastTypedDataEncoder
             \<lparr>Domain.Name = ''A'', Version = ''1'', ChainID = Some chainId,
              VerifyingContract = 0, Salt = 0\<rparr>
             (Types (fst (snd (Hash L
                (NewFastTypedDataEncoder demoDomain
                   [(''Message'', [\<lparr>Type.Name = ''content'', Type = ''string''\<rparr>])]
                   ''Message'' [(''content'', VString ''Hello, World!'')])
                globalEncoderCache))))
             ''Message'' [(''content'', VString ''Hello, World!'')])
          (snd (snd (Hash L
             (NewFastTypedDataEncoder demoDomain
                [(''Message'', [\<lparr>Type.Name = ''content'', Type = ''string''\<rparr>])]
                ''Message'' [(''content'', VString ''Hello, World!'')])
             globalEncoderCache))))
     = Inr (Keccak256 L
              ([0x19, 0x01]
               @ Keccak256 L
                   (Keccak256 L (bytesOfString ''EIP712Domain(string name,string version)'')
                    @ Keccak256 L (bytesOfString ''A'') @ Keccak256 L (bytesOfString ''1''))
               @ Keccak256 L
                   (Keccak256 L (bytesOfString ''Message(string content)'')
                    @ Keccak256 L (bytesOfString ''Hello, World!''))))"
  by (simp add: encode_simps dependency_simps Hash_def validate_def validateNoCycles_def
      buildDomainTypes_def domainToMap_def typeHash_def encodeType_def dependenciesOf_def
      encodeFields_def globalEncoderCache_def NewFastTypedDataEncoder_def demoDomain_def
      sliceElems_def stringElem_def hasSuffix_def hasPrefix_def trimSuffix_def
      encodePrimitive_def toString_def encodeInteger_def toBigInt_def setString_def
      digitVal_def bigIntString_digits u256Bytes_def beBytes_numeral replicate_numeral Let_def)

subsection \<open>The domain type\<close>

text \<open>
  C5. The synthesized \<open>EIP712Domain\<close> descriptor is \<open>name\<close> and \<open>version\<close> as
  \<open>string\<close>, then \<open>chainId\<close> as \<open>uint256\<close> exactly when a chain id was supplied (the
  pointer is not nil, whatever the integer, zero included), then \<open>verifyingContract\<close>
  as \<open>address\<close> exactly when the address is not all-zero, then \<open>salt\<close> as \<open>bytes32\<close>
  exactly when the salt is not all-zero: the fields that are present stand in this
  fixed order, and no other field is ever present. The encoder's \<open>buildDomainTypes\<close>
  and the signer's method build the same list.
\<close>

theorem buildDomainTypesStatic_fields:
  "buildDomainTypesStatic d =
     [\<lparr>Type.Name = ''name'', Type = ''string''\<rparr>, \<lparr>Type.Name = ''version'', Type = ''string''\<rparr>]
     @ (if ChainID d = None then [] else [\<lparr>Type.Name = ''chainId'', Type = ''uint256''\<rparr>])
     @ (if VerifyingContract d = 0 then []
        else [\<lparr>Type.Name = ''verifyingContract'', Type = ''address''\<rparr>])
     @ (if Salt d = 0 then [] else [\<lparr>Type.Name = ''salt'', Type = ''bytes32''\<rparr>])
   \<and> buildDomainTypes e = buildDomainTypesStatic (Domain e)
   \<and> buildDomainTypesOf s d = buildDomainTypesStatic d"
  by (simp add: buildDomainTypesStatic_def buildDomainTypes_def buildDomainTypesOf_def)

subsection \<open>Leaves and struct nodes\<close>

text \<open>
  C6. A negative value for \<open>uint8\<close> is refused. A value outside the range of \<open>int8\<close>
  is not: \<open>1000\<close> and \<open>-129\<close> are encoded (as their residue modulo \<open>2^256\<close>). A width
  that is no multiple of 8 or above 256 is not refused either: \<open>uint257\<close> and
  \<open>int512\<close> encode like any integer type.
\<close>

theorem encodePrimitive_integer_bounds:
  "encodePrimitive L ''uint8'' (VString ''-1'') = Inl (NegativeForUnsigned ''uint8'')
   \<and> encodePrimitive L ''int8'' (VString ''1000'') = Inr (replicate 30 0 @ [3, 232])
   \<and> encodePrimitive L ''int8'' (VBigInt (- 129)) = Inr (replicate 31 255 @ [127])
   \<and> encodePrimitive L ''uint257'' (VString ''123'') = Inr (replicate 31 0 @ [123])
   \<and> encodePrimitive L ''int512'' (VString ''123'') = Inr (replicate 31 0 @ [123])"
  by (simp add: encodePrimitive_def encodeInteger_def toBigInt_def hasPrefix_def
      setString_def digitVal_def u256Bytes_def beBytes_numeral replicate_numeral)

lemma encodeDataFields_missing:
  "field \<in> set flds \<Longrightarrow> map_of data (Type.Name field) = None \<Longrightarrow>
     \<exists>err c'. encodeDataFields L e flds data buf c = (Inl err, c')"
proof (induction flds arbitrary: buf c)
  case Nil
  then show ?case by simp
next
  case (Cons first rest)
  show ?case
  proof (cases "map_of data (Type.Name first)")
    case None
    then show ?thesis by (simp add: encodeDataFields.simps)
  next
    case (Some v)
    then have later: "field \<in> set rest" using Cons(2,3) by auto
    obtain r c1 where enc: "encodeValue L e (Type first) v c = (r, c1)"
      by (cases "encodeValue L e (Type first) v c") auto
    show ?thesis
    proof (cases r)
      case (Inl err)
      then show ?thesis using Some enc by (simp add: encodeDataFields.simps)
    next
      case (Inr encoded)
      then show ?thesis
        using Some enc Cons(1)[OF later Cons(3), of "buf @ encoded" c1]
        by (simp add: encodeDataFields.simps)
    qed
  qed
qed

lemma encodeDataFields_declared_only:
  "(\<And>field. field \<in> set flds \<Longrightarrow>
      map_of data' (Type.Name field) = map_of data (Type.Name field)) \<Longrightarrow>
   encodeDataFields L e flds data' buf c = encodeDataFields L e flds data buf c"
proof (induction flds arbitrary: buf c)
  case Nil
  then show ?case by (simp add: encodeDataFields.simps)
next
  case (Cons first rest)
  have same: "map_of data' (Type.Name first) = map_of data (Type.Name first)"
    using Cons(2) by simp
  have rest: "encodeDataFields L e rest data' buf' c' = encodeDataFields L e rest data buf' c'"
    for buf' c'
    using Cons by simp
  show ?case
    by (simp add: encodeDataFields.simps same rest
        cong: option.case_cong prod.case_cong sum.case_cong)
qed

text \<open>
  C7. For the type \<open>Data(string value)\<close>: a mapping without \<open>value\<close> is refused, but a
  mapping with an entry \<open>extra\<close> that the type does not declare is encoded, to the
  same bytes as the mapping without that entry.
\<close>

theorem encodeData_extra_field:
  "fst (encodeData L
          (NewFastTypedDataEncoder demoDomain
             [(''Data'', [\<lparr>Type.Name = ''value'', Type = ''string''\<rparr>])] ''Data'' [])
          ''Data'' [] globalEncoderCache)
     = Inl (FieldNotFound ''value'')
   \<and> fst (encodeData L
          (NewFastTypedDataEncoder demoDomain
             [(''Data'', [\<lparr>Type.Name = ''value'', Type = ''string''\<rparr>])] ''Data'' [])
          ''Data'' [(''value'', VString ''x''), (''extra'', VString ''malicious data'')]
          globalEncoderCache)
     = Inr (Keccak256 L (bytesOfString ''Data(string value)'') @ Keccak256 L (bytesOfString ''x''))
   \<and> fst (encodeData L
          (NewFastTypedDataEncoder demoDomain
             [(''Data'', [\<lparr>Type.Name = ''value'', Type = ''string''\<rparr>])] ''Data'' [])
          ''Data'' [(''value'', VString ''x'')] globalEncoderCache)
     = Inr (Keccak256 L (bytesOfString ''Data(string value)'') @ Keccak256 L (bytesOfString ''x''))"
  by (simp add: encode_simps dependency_simps typeHash_def encodeType_def dependenciesOf_def encodeFields_def
      globalEncoderCache_def NewFastTypedDataEncoder_def hasSuffix_def trimSuffix_def
      encodePrimitive_def toString_def Let_def)

subsection \<open>A second run on the cache of the first\<close>














subsection \<open>The caller's schema and the permit's owner\<close>

lemma Hash_Types:
  "Types (fst (snd (Hash L e c))) =
     (if validate e = None \<and> map_of (Types e) ''EIP712Domain'' = None
      then Types e @ [(''EIP712Domain'', buildDomainTypes e)] else Types e)"
  by (simp add: Hash_def Let_def split: option.splits prod.splits sum.splits)

text \<open>
  C9. \<open>SignTypedDataFast\<close> builds its encoder on the caller's map and \<open>Hash\<close> writes
  the synthesized \<open>EIP712Domain\<close> entry into it: whenever the cycle check passes and
  the map has no such entry, the caller's map has one more entry after the call, also
  when the call then fails. (\<open>SignTypedData\<close> copies the schema into a map of its own
  and writes there.) The second part is the run for the schema with the single type
  \<open>Message(string content)\<close>.
\<close>

theorem SignTypedDataFast_writes_types:
  "fst (snd (SignTypedDataFast L C s domain types primaryType message c)) =
     (if validateNoCycles types = None \<and> map_of types ''EIP712Domain'' = None
      then types @ [(''EIP712Domain'', buildDomainTypesStatic domain)] else types)
   \<and> fst (snd (SignTypedDataFast L C s demoDomain
                  [(''Message'', [\<lparr>Type.Name = ''content'', Type = ''string''\<rparr>])]
                  ''Message'' [(''content'', VString ''Hello, World!'')] c)) =
     [(''Message'', [\<lparr>Type.Name = ''content'', Type = ''string''\<rparr>]),
      (''EIP712Domain'', [\<lparr>Type.Name = ''name'', Type = ''string''\<rparr>,
                          \<lparr>Type.Name = ''version'', Type = ''string''\<rparr>])]"
proof -
  have types_after:
    "fst (snd (SignTypedDataFast L C s domain types primaryType message c)) =
       Types (fst (snd (Hash L (NewFastTypedDataEncoder domain types primaryType message) c)))"
    for domain types primaryType message
    by (simp add: SignTypedDataFast_def split: prod.splits sum.splits option.splits)
  have build: "buildDomainTypes (NewFastTypedDataEncoder domain types primaryType message)
                 = buildDomainTypesStatic domain"
    for domain types primaryType message
    by (simp add: buildDomainTypes_def buildDomainTypesStatic_def NewFastTypedDataEncoder_def)
  have general:
    "fst (snd (SignTypedDataFast L C s domain types primaryType message c)) =
       (if validateNoCycles types = None \<and> map_of types ''EIP712Domain'' = None
        then types @ [(''EIP712Domain'', buildDomainTypesStatic domain)] else types)"
    for domain types primaryType message
    unfolding types_after Hash_Types build
    by (simp add: validate_def NewFastTypedDataEncoder_def)
  show ?thesis
    unfolding general
    by (simp add: validateNoCycles_def buildDomainTypesStatic_def demoDomain_def
        trimSuffix_def hasSuffix_def)
qed














end
